theory Spec2Isabelle
  imports Complex_Main "HOL-Library.Extended_Nat"
begin

section \<open>Data model\<close>

text \<open>
  The arrays of the program hold IEEE doubles. They are modelled as real numbers, without
  rounding; a point is a row of the two-column point array, a cell a row of the three-column
  index array \<^verbatim>\<open>mesh.cells["points"]\<close>. The one place where the model keeps the
  non-finite doubles as values is a numpy division by an array that may hold zeros: the one
  that ends \<^verbatim>\<open>get_new_points_averaged\<close> and the one of the incircle radius. Everywhere else a
  computation that would leave the finite doubles stops the model with \<open>NonFinite\<close>: the
  program goes on there with \<^verbatim>\<open>nan\<close> or \<^verbatim>\<open>inf\<close> in its arrays, and the model does not follow it.
\<close>

type_synonym point = "real \<times> real"
type_synonym cell = "nat \<times> nat \<times> nat"

datatype error = ValueError | IndexError | AssertionError

text \<open>How a computation of the model stops early: an exception of the program, or values
  that are no finite doubles any more.\<close>

datatype stop = Raised error | NonFinite

text \<open>The result of a numpy division of doubles: dividing by zero raises nothing, it gives
  \<^verbatim>\<open>nan\<close> or an infinity (and a warning).\<close>

datatype npfloat = Fin real | PosInf | NegInf | NaN

definition np_true_divide :: "real \<Rightarrow> real \<Rightarrow> npfloat" where
  "np_true_divide x y =
     (if y \<noteq> 0 then Fin (x / y)
      else if x = 0 then NaN
      else if 0 < x then PosInf else NegInf)"

text \<open>The mesh object: the point and cell arrays, and the circumcenter array that the mesh
  keeps once it has been computed (\<open>None\<close>: not computed since the last recompute).\<close>

record mesh =
  points :: "point list"
  cells :: "cell list"
  circumcenters_cache :: "point list option"

text \<open>The three columns of the cell array: \<^verbatim>\<open>mesh.cells["points"].T\<close>.\<close>

definition cells_T :: "cell list \<Rightarrow> nat list list" where
  "cells_T cs = [map (\<lambda>(a, b, c). a) cs, map (\<lambda>(a, b, c). b) cs, map (\<lambda>(a, b, c). c) cs]"

text \<open>\<^verbatim>\<open>mesh.cells["points"].reshape(-1)\<close>: the rows one after the other.\<close>

definition cells_flat :: "cell list \<Rightarrow> nat list" where
  "cells_flat cs = concat (map (\<lambda>(a, b, c). [a, b, c]) cs)"

section \<open>The numpy operations used\<close>

text \<open>Elementwise operation of two one-dimensional arrays with broadcasting: equal
  lengths, or one of them of length one.\<close>

definition broadcast2 :: "('a \<Rightarrow> 'b \<Rightarrow> 'c) \<Rightarrow> 'a list \<Rightarrow> 'b list \<Rightarrow> error + 'c list" where
  "broadcast2 f xs ys =
     (if length xs = length ys then Inr (map2 f xs ys)
      else if length ys = 1 then Inr (map (\<lambda>x. f x (hd ys)) xs)
      else if length xs = 1 then Inr (map (\<lambda>y. f (hd xs) y) ys)
      else Inl ValueError)"

text \<open>In-place operation \<^verbatim>\<open>xs op= ys\<close> along the first axis: the right operand may be
  broadcast to the left one, the left one keeps its shape.\<close>

definition inplace2 :: "('a \<Rightarrow> 'b \<Rightarrow> 'c) \<Rightarrow> 'a list \<Rightarrow> 'b list \<Rightarrow> error + 'c list" where
  "inplace2 f xs ys =
     (if length ys = length xs then Inr (map2 f xs ys)
      else if length ys = 1 then Inr (map (\<lambda>x. f x (hd ys)) xs)
      else Inl ValueError)"

text \<open>\<^verbatim>\<open>numpy.bincount(idx, vals, minlength=n)\<close>: the sums of the values per index, in an
  array as long as the largest index needs and at least \<open>n\<close> long.\<close>

definition bincount_len :: "nat list \<Rightarrow> nat \<Rightarrow> nat" where
  "bincount_len idx n = fold max (map Suc idx) n"

definition bincount :: "nat list \<Rightarrow> real list \<Rightarrow> nat \<Rightarrow> error + real list" where
  "bincount idx vals n =
     (if length idx \<noteq> length vals then Inl ValueError
      else Inr (fold (\<lambda>(i, v) acc. acc[i := acc ! i + v]) (zip idx vals)
                  (replicate (bincount_len idx n) 0)))"

text \<open>\<^verbatim>\<open>numpy.bincount(idx, minlength=n)\<close>: the number of occurrences per index.\<close>

definition bincount_occ :: "nat list \<Rightarrow> nat \<Rightarrow> nat list" where
  "bincount_occ idx n =
     fold (\<lambda>i acc. acc[i := Suc (acc ! i)]) idx (replicate (bincount_len idx n) 0)"

section \<open>The averaging aggregator (helpers.py)\<close>

text \<open>\<^verbatim>\<open>scaled_rp\<close>: the two rows of \<^verbatim>\<open>reference_points.T\<close>, multiplied by the weights
  when there are any.\<close>

definition scaled_rp :: "point list \<Rightarrow> real list option \<Rightarrow> error + real list \<times> real list" where
  "scaled_rp reference_points weights =
     (case weights of
        None \<Rightarrow> Inr (map fst reference_points, map snd reference_points)
      | Some w \<Rightarrow>
          (case broadcast2 (*) (map fst reference_points) w of
             Inl e \<Rightarrow> Inl e
           | Inr sx \<Rightarrow>
               (case broadcast2 (*) (map snd reference_points) w of
                  Inl e \<Rightarrow> Inl e
                | Inr sy \<Rightarrow> Inr (sx, sy))))"

text \<open>One pass of the loop \<^verbatim>\<open>for i in mesh.cells["points"].T: new_points += ...\<close>.\<close>

definition add_column :: "nat \<Rightarrow> real list \<times> real list \<Rightarrow> nat list \<Rightarrow> point list \<Rightarrow> error + point list" where
  "add_column n srp i new_points =
     (case bincount i (fst srp) n of
        Inl e \<Rightarrow> Inl e
      | Inr bx \<Rightarrow>
          (case bincount i (snd srp) n of
             Inl e \<Rightarrow> Inl e
           | Inr by \<Rightarrow> inplace2 (\<lambda>(x, y) (dx, dy). (x + dx, y + dy)) new_points (zip bx by)))"

text \<open>A loop over a list whose body may raise.\<close>

fun for_each :: "('a \<Rightarrow> 's \<Rightarrow> error + 's) \<Rightarrow> 'a list \<Rightarrow> 's \<Rightarrow> error + 's" where
  "for_each body [] s = Inr s"
| "for_each body (x # xs) s =
     (case body x s of Inl e \<Rightarrow> Inl e | Inr s' \<Rightarrow> for_each body xs s')"

definition omega_sum :: "mesh \<Rightarrow> real list option \<Rightarrow> error + real list" where
  "omega_sum m weights =
     (let n = length (points m) in
      case weights of
        None \<Rightarrow> Inr (map real (bincount_occ (cells_flat (cells m)) n))
      | Some w \<Rightarrow>
          for_each
            (\<lambda>i omega. case bincount i w n of
                          Inl e \<Rightarrow> Inl e
                        | Inr b \<Rightarrow> inplace2 (+) omega b)
            (cells_T (cells m)) (replicate n 0))"

definition get_new_points_averaged ::
  "mesh \<Rightarrow> point list \<Rightarrow> real list option \<Rightarrow> error + (npfloat \<times> npfloat) list" where
  "get_new_points_averaged m reference_points weights =
     (case scaled_rp reference_points weights of
        Inl e \<Rightarrow> Inl e
      | Inr srp \<Rightarrow>
          (let n = length (points m) in
           case for_each (add_column n srp) (cells_T (cells m)) (replicate n (0, 0)) of
             Inl e \<Rightarrow> Inl e
           | Inr new_points \<Rightarrow>
               (case omega_sum m weights of
                  Inl e \<Rightarrow> Inl e
                | Inr omega \<Rightarrow>
                    inplace2 (\<lambda>(x, y) w. (np_true_divide x w, np_true_divide y w))
                      new_points omega)))"

section \<open>Double-precision arithmetic\<close>

text \<open>
  numpy computes on IEEE 754 doubles (\<^verbatim>\<open>float64\<close>). A finite double is modelled by the real
  number it stands for, and an operation by the exact operation on reals followed by the
  rounding to the nearest double.
\<close>

text \<open>The power of two \<open>2\<^sup>e\<close> for an integer exponent.\<close>

definition pow2 :: "int \<Rightarrow> real" where
  "pow2 e = (if 0 \<le> e then 2 ^ nat e else 1 / 2 ^ nat (- e))"

text \<open>The integer nearest to \<open>y\<close>; a tie goes to the even one.\<close>

definition round_half_even :: "real \<Rightarrow> int" where
  "round_half_even y =
     (let n = \<lfloor>y\<rfloor> in
      if y - of_int n < 1/2 then n
      else if 1/2 < y - of_int n then n + 1
      else if even n then n else n + 1)"

text \<open>The binary exponent of \<open>x\<close> as a double has it: the least \<open>e\<close> from -1022 on with
  \<open>\<bar>x\<bar> < 2\<^sup>e\<^sup>+\<^sup>1\<close>, and 1023 at most. Below \<open>2\<^sup>-\<^sup>1\<^sup>0\<^sup>2\<^sup>2\<close> the doubles are subnormal and keep the
  exponent -1022.\<close>

definition exponent :: "real \<Rightarrow> int" where
  "exponent x = (case find (\<lambda>e. \<bar>x\<bar> < pow2 (e + 1)) [- 1022 .. 1022] of
                   Some e \<Rightarrow> e | None \<Rightarrow> 1023)"

text \<open>The distance between neighbouring doubles around \<open>x\<close>: 53 bits of precision.\<close>

definition ulp :: "real \<Rightarrow> real" where
  "ulp x = pow2 (exponent x - 52)"

text \<open>The rounded value, before the test for overflow.\<close>

definition nearest :: "real \<Rightarrow> real" where
  "nearest x = of_int (round_half_even (x / ulp x)) * ulp x"

text \<open>The double that a float64 operation returns for the exact result \<open>x\<close>: the nearest
  multiple of \<open>ulp x\<close>, ties to even, and an infinity once that reaches \<open>2\<^sup>1\<^sup>0\<^sup>2\<^sup>4\<close>.\<close>

definition round_double :: "real \<Rightarrow> npfloat" where
  "round_double x =
     (if pow2 1024 \<le> \<bar>nearest x\<bar> then (if 0 < x then PosInf else NegInf)
      else Fin (nearest x))"

text \<open>The reals that are doubles: rounding leaves them as they are.\<close>

definition is_double :: "real \<Rightarrow> bool" where
  "is_double x \<longleftrightarrow> nearest x = x \<and> \<bar>x\<bar> < pow2 1024"

definition signed_inf :: "bool \<Rightarrow> npfloat" where
  "signed_inf positive = (if positive then PosInf else NegInf)"

text \<open>The operations of numpy on float64 values. \<^verbatim>\<open>nan\<close> is handed on, the infinities follow
  IEEE 754, and every finite result is rounded once. The two zeros are one value here; a
  division by zero takes it as \<^verbatim>\<open>+0.0\<close>.\<close>

fun f64_neg :: "npfloat \<Rightarrow> npfloat" where
  "f64_neg (Fin x) = Fin (- x)"
| "f64_neg PosInf = NegInf"
| "f64_neg NegInf = PosInf"
| "f64_neg NaN = NaN"

fun f64_abs :: "npfloat \<Rightarrow> npfloat" where
  "f64_abs (Fin x) = Fin \<bar>x\<bar>"
| "f64_abs PosInf = PosInf"
| "f64_abs NegInf = PosInf"
| "f64_abs NaN = NaN"

fun f64_add :: "npfloat \<Rightarrow> npfloat \<Rightarrow> npfloat" where
  "f64_add (Fin x) (Fin y) = round_double (x + y)"
| "f64_add NaN b = NaN"
| "f64_add a NaN = NaN"
| "f64_add PosInf NegInf = NaN"
| "f64_add NegInf PosInf = NaN"
| "f64_add PosInf b = PosInf"
| "f64_add a PosInf = PosInf"
| "f64_add NegInf b = NegInf"
| "f64_add a NegInf = NegInf"

definition f64_sub :: "npfloat \<Rightarrow> npfloat \<Rightarrow> npfloat" where
  "f64_sub a b = f64_add a (f64_neg b)"

fun f64_mul :: "npfloat \<Rightarrow> npfloat \<Rightarrow> npfloat" where
  "f64_mul (Fin x) (Fin y) = round_double (x * y)"
| "f64_mul NaN b = NaN"
| "f64_mul a NaN = NaN"
| "f64_mul (Fin x) PosInf = (if x = 0 then NaN else signed_inf (0 < x))"
| "f64_mul (Fin x) NegInf = (if x = 0 then NaN else signed_inf (x < 0))"
| "f64_mul PosInf (Fin y) = (if y = 0 then NaN else signed_inf (0 < y))"
| "f64_mul NegInf (Fin y) = (if y = 0 then NaN else signed_inf (y < 0))"
| "f64_mul PosInf PosInf = PosInf"
| "f64_mul PosInf NegInf = NegInf"
| "f64_mul NegInf PosInf = NegInf"
| "f64_mul NegInf NegInf = PosInf"

fun f64_div :: "npfloat \<Rightarrow> npfloat \<Rightarrow> npfloat" where
  "f64_div (Fin x) (Fin y) =
     (if y = 0 then (if x = 0 then NaN else signed_inf (0 < x)) else round_double (x / y))"
| "f64_div NaN b = NaN"
| "f64_div a NaN = NaN"
| "f64_div (Fin x) b = Fin 0"
| "f64_div PosInf (Fin y) = signed_inf (0 \<le> y)"
| "f64_div NegInf (Fin y) = signed_inf (y < 0)"
| "f64_div a b = NaN"

fun f64_sqrt :: "npfloat \<Rightarrow> npfloat" where
  "f64_sqrt (Fin x) = (if x < 0 then NaN else round_double (sqrt x))"
| "f64_sqrt PosInf = PosInf"
| "f64_sqrt NegInf = NaN"
| "f64_sqrt NaN = NaN"

fun f64_less :: "npfloat \<Rightarrow> npfloat \<Rightarrow> bool" where
  "f64_less (Fin x) (Fin y) = (x < y)"
| "f64_less NaN b = False"
| "f64_less a NaN = False"
| "f64_less PosInf b = False"
| "f64_less a PosInf = True"
| "f64_less a NegInf = False"
| "f64_less NegInf b = True"



section \<open>Incidence sums\<close>

text \<open>Every cell index of the mesh addresses a point: what the mesh constructor needs, and
  what keeps \<^verbatim>\<open>bincount\<close> within \<open>minlength\<close>.\<close>

definition cells_in_range :: "mesh \<Rightarrow> bool" where
  "cells_in_range m =
     list_all (\<lambda>(a, b, c). a < length (points m) \<and> b < length (points m) \<and> c < length (points m))
       (cells m)"

text \<open>How often point \<open>p\<close> occurs in the vertex triple of a cell.\<close>

definition multiplicity :: "nat \<Rightarrow> cell \<Rightarrow> nat" where
  "multiplicity p c = (case c of (a, b, d) \<Rightarrow> count_list [a, b, d] p)"

text \<open>The sum of a per-cell quantity over the cells incident to \<open>p\<close>, each incidence
  counted with its multiplicity.\<close>

definition star_sum :: "cell list \<Rightarrow> nat \<Rightarrow> real list \<Rightarrow> real" where
  "star_sum cs p vals = sum_list (map (\<lambda>(c, v). real (multiplicity p c) * v) (zip cs vals))"

text \<open>What one column of the cell array contributes to point \<open>p\<close>.\<close>

definition col_sum :: "nat \<Rightarrow> nat list \<Rightarrow> real list \<Rightarrow> real" where
  "col_sum p idx vals = sum_list (map (\<lambda>(i, v). if i = p then v else 0) (zip idx vals))"

text \<open>The weights of the cells: all one when the argument is omitted.\<close>

definition weights_or_ones :: "cell list \<Rightarrow> real list option \<Rightarrow> real list" where
  "weights_or_ones cs weights = (case weights of None \<Rightarrow> replicate (length cs) 1 | Some w \<Rightarrow> w)"

text \<open>The weighted mean of the reference points over the incident cells of \<open>p\<close>.\<close>

definition weighted_average :: "cell list \<Rightarrow> point list \<Rightarrow> real list \<Rightarrow> nat \<Rightarrow> point" where
  "weighted_average cs reference_points w p =
     (star_sum cs p (map2 (*) (map fst reference_points) w) / star_sum cs p w,
      star_sum cs p (map2 (*) (map snd reference_points) w) / star_sum cs p w)"

section \<open>The mesh collaborator\<close>

text \<open>
  Modelled from the spec: the mesh class \<^verbatim>\<open>MeshTri\<close> of meshplex is not under src/. The
  spec (sections 3 and 6, glossary) names what it derives from the points and cells:
  barycenters (the average of the three vertices), volumes (areas), circumcenters, incircle
  radii, the classification of points into boundary and interior, and the cells at boundary
  edges. An edge is a boundary edge when exactly one cell has it; a boundary point is an end
  point of a boundary edge; an interior point is a point of some cell that is no boundary
  point.
\<close>

text \<open>The constructor: the cell array indexes the point array.\<close>

definition MeshTri :: "point list \<Rightarrow> cell list \<Rightarrow> error + mesh" where
  "MeshTri pts cs =
     (if list_all (\<lambda>(a, b, c). a < length pts \<and> b < length pts \<and> c < length pts) cs
      then Inr \<lparr>points = pts, cells = cs, circumcenters_cache = None\<rparr>
      else Inl IndexError)"

definition cell_triangle :: "point list \<Rightarrow> cell \<Rightarrow> point \<times> point \<times> point" where
  "cell_triangle pts c = (case c of (a, b, d) \<Rightarrow> (pts ! a, pts ! b, pts ! d))"

definition barycenter :: "point \<times> point \<times> point \<Rightarrow> point" where
  "barycenter t =
     (case t of ((ax, ay), (bx, by), (cx, cy)) \<Rightarrow> ((ax + bx + cx) / 3, (ay + by + cy) / 3))"

definition signed_area :: "point \<times> point \<times> point \<Rightarrow> real" where
  "signed_area t =
     (case t of ((ax, ay), (bx, by), (cx, cy)) \<Rightarrow>
        ((bx - ax) * (cy - ay) - (cx - ax) * (by - ay)) / 2)"

definition volume :: "point \<times> point \<times> point \<Rightarrow> real" where
  "volume t = \<bar>signed_area t\<bar>"

text \<open>The point at the same distance from the three vertices; a triangle of area zero has
  none (the division by zero gives non-finite coordinates).\<close>

definition circumcenter :: "point \<times> point \<times> point \<Rightarrow> point option" where
  "circumcenter t =
     (case t of ((ax, ay), (bx, by), (cx, cy)) \<Rightarrow>
        (let d = 2 * (ax * (by - cy) + bx * (cy - ay) + cx * (ay - by)) in
         if d = 0 then None
         else Some
           (((ax * ax + ay * ay) * (by - cy) + (bx * bx + by * by) * (cy - ay)
               + (cx * cx + cy * cy) * (ay - by)) / d,
            ((ax * ax + ay * ay) * (cx - bx) + (bx * bx + by * by) * (ax - cx)
               + (cx * cx + cy * cy) * (bx - ax)) / d)))"

definition dist2 :: "point \<Rightarrow> point \<Rightarrow> real" where
  "dist2 p q = sqrt ((fst p - fst q) * (fst p - fst q) + (snd p - snd q) * (snd p - snd q))"

definition perimeter :: "point \<times> point \<times> point \<Rightarrow> real" where
  "perimeter t = (case t of (a, b, c) \<Rightarrow> dist2 b c + dist2 c a + dist2 a b)"

text \<open>The incircle radius, twice the area over the perimeter: \<^verbatim>\<open>nan\<close> for three equal
  vertices.\<close>

definition inradius :: "point \<times> point \<times> point \<Rightarrow> npfloat" where
  "inradius t = np_true_divide (2 * volume t) (perimeter t)"

definition cell_barycenters :: "mesh \<Rightarrow> point list" where
  "cell_barycenters m = map (\<lambda>c. barycenter (cell_triangle (points m) c)) (cells m)"

definition cell_volumes :: "mesh \<Rightarrow> real list" where
  "cell_volumes m = map (\<lambda>c. volume (cell_triangle (points m) c)) (cells m)"

definition cell_inradius :: "mesh \<Rightarrow> npfloat list" where
  "cell_inradius m = map (\<lambda>c. inradius (cell_triangle (points m) c)) (cells m)"

text \<open>The circumcenters of the current points, computed afresh.\<close>

definition compute_circumcenters :: "mesh \<Rightarrow> stop + point list" where
  "compute_circumcenters m =
     (case those (map (\<lambda>c. circumcenter (cell_triangle (points m) c)) (cells m)) of
        None \<Rightarrow> Inl NonFinite
      | Some cc \<Rightarrow> Inr cc)"

text \<open>The property \<^verbatim>\<open>mesh.cell_circumcenters\<close>: the array the mesh keeps, computed on the
  first access after a recompute. The caller gets the mesh's own array, not a copy, so the
  mesh comes back with the array in its cache.\<close>

definition cell_circumcenters :: "mesh \<Rightarrow> stop + point list \<times> mesh" where
  "cell_circumcenters m =
     (case circumcenters_cache m of
        Some cc \<Rightarrow> Inr (cc, m)
      | None \<Rightarrow>
          (case compute_circumcenters m of
             Inl e \<Rightarrow> Inl e
           | Inr cc \<Rightarrow> Inr (cc, m\<lparr>circumcenters_cache := Some cc\<rparr>)))"

text \<open>\<^verbatim>\<open>mesh.update_values()\<close>: the derived values are recomputed from the points; the
  kept circumcenter array is dropped.\<close>

definition update_values :: "mesh \<Rightarrow> mesh" where
  "update_values m = m\<lparr>circumcenters_cache := None\<rparr>"

text \<open>The three edges of a cell, each as the pair of its end points, smaller index first;
  edge \<open>k\<close> lies opposite vertex \<open>k\<close>.\<close>

definition edge :: "nat \<Rightarrow> nat \<Rightarrow> nat \<times> nat" where
  "edge a b = (min a b, max a b)"

definition cell_edges :: "cell \<Rightarrow> (nat \<times> nat) list" where
  "cell_edges c = (case c of (a, b, d) \<Rightarrow> [edge b d, edge d a, edge a b])"

definition all_edges :: "cell list \<Rightarrow> (nat \<times> nat) list" where
  "all_edges cs = concat (map cell_edges cs)"

definition is_boundary_edge :: "cell list \<Rightarrow> nat \<times> nat \<Rightarrow> bool" where
  "is_boundary_edge cs e = (count_list (all_edges cs) e = 1)"

definition boundary_edges :: "cell list \<Rightarrow> (nat \<times> nat) list" where
  "boundary_edges cs = filter (is_boundary_edge cs) (all_edges cs)"

text \<open>\<^verbatim>\<open>mesh.is_boundary_point\<close>, as a predicate on point indices.\<close>

definition is_boundary_point :: "mesh \<Rightarrow> nat \<Rightarrow> bool" where
  "is_boundary_point m p =
     list_ex (\<lambda>e. fst e = p \<or> snd e = p) (boundary_edges (cells m))"

text \<open>\<^verbatim>\<open>mesh.is_interior_point\<close>.\<close>

definition is_interior_point :: "mesh \<Rightarrow> nat \<Rightarrow> bool" where
  "is_interior_point m p = (p \<in> set (cells_flat (cells m)) \<and> \<not> is_boundary_point m p)"

text \<open>\<^verbatim>\<open>mesh.edges_cells[1][:, 0]\<close>: for every boundary edge the index of its cell.\<close>

definition boundary_cell_ids :: "mesh \<Rightarrow> nat list" where
  "boundary_cell_ids m =
     concat (map (\<lambda>k. map (\<lambda>e. k) (filter (is_boundary_edge (cells m)) (cell_edges (cells m ! k))))
               [0..<length (cells m)])"

section \<open>The ODT update rules (odt.py)\<close>

text \<open>\<^verbatim>\<open>dst[ids] = src[ids]\<close>.\<close>

definition overwrite_rows :: "nat list \<Rightarrow> 'a list \<Rightarrow> 'a list \<Rightarrow> 'a list" where
  "overwrite_rows ids src dst = fold (\<lambda>k acc. acc[k := src ! k]) ids dst"

text \<open>\<^verbatim>\<open>dst[msk] = src[msk]\<close> for a boolean mask over the rows.\<close>

definition overwrite_masked :: "(nat \<Rightarrow> bool) \<Rightarrow> 'a list \<Rightarrow> 'a list \<Rightarrow> 'a list" where
  "overwrite_masked msk src dst =
     map (\<lambda>k. if msk k then src ! k else dst ! k) [0..<length dst]"

definition fin_point :: "point \<Rightarrow> npfloat \<times> npfloat" where
  "fin_point p = (Fin (fst p), Fin (snd p))"

definition is_finite :: "npfloat \<Rightarrow> bool" where
  "is_finite x = (case x of Fin r \<Rightarrow> True | _ \<Rightarrow> False)"

definition the_real :: "npfloat \<Rightarrow> real" where
  "the_real x = (case x of Fin r \<Rightarrow> r | _ \<Rightarrow> 0)"

text \<open>An array of doubles as an array of reals, when all its entries are finite.\<close>

definition finite_rows :: "(npfloat \<times> npfloat) list \<Rightarrow> stop + point list" where
  "finite_rows X =
     (if list_all (\<lambda>(x, y). is_finite x \<and> is_finite y) X
      then Inr (map (\<lambda>(x, y). (the_real x, the_real y)) X)
      else Inl NonFinite)"

text \<open>The end of both rules: without a \<^verbatim>\<open>boundary_step\<close> the rows of the boundary points
  are set to the current points, with one those rows are handed to it and replaced by what
  it returns.\<close>

definition boundary_rows :: "mesh \<Rightarrow> 'a list \<Rightarrow> 'a list" where
  "boundary_rows m X = map (\<lambda>k. X ! k) (filter (is_boundary_point m) [0..<length X])"

text \<open>\<^verbatim>\<open>X[idx] = rows\<close> for the mask of the boundary points: the rows in order, one row for
  all of them when a single one is given.\<close>

definition assign_masked :: "(nat \<Rightarrow> bool) \<Rightarrow> 'a list \<Rightarrow> 'a list \<Rightarrow> error + 'a list" where
  "assign_masked msk rows X =
     (let ids = filter msk [0..<length X] in
      if length rows = length ids then
        Inr (fold (\<lambda>(k, r) acc. acc[k := r]) (zip ids rows) X)
      else if length rows = 1 then
        Inr (fold (\<lambda>k acc. acc[k := hd rows]) ids X)
      else Inl ValueError)"

definition reset_boundary ::
  "(point list \<Rightarrow> point list) option \<Rightarrow> mesh \<Rightarrow> (npfloat \<times> npfloat) list \<Rightarrow> stop + point list" where
  "reset_boundary boundary_step m X =
     (case boundary_step of
        None \<Rightarrow>
          finite_rows (overwrite_masked (is_boundary_point m) (map fin_point (points m)) X)
      | Some bstep \<Rightarrow>
          (case finite_rows (boundary_rows m X) of
             Inl e \<Rightarrow> Inl e
           | Inr rows \<Rightarrow>
               (case assign_masked (is_boundary_point m) (map fin_point (bstep rows)) X of
                  Inl e \<Rightarrow> Inl (Raised e)
                | Inr X' \<Rightarrow> finite_rows X')))"

text \<open>The reference array of the uniform rule: the mesh's circumcenter array with the rows
  of the cells at boundary edges overwritten by barycenters. The array is the mesh's own, so
  the mesh keeps the overwritten rows.\<close>

definition uniform_reference :: "mesh \<Rightarrow> stop + point list \<times> mesh" where
  "uniform_reference m =
     (case cell_circumcenters m of
        Inl e \<Rightarrow> Inl e
      | Inr (cc, m1) \<Rightarrow>
          (let bc = cell_barycenters m1;
               cc' = overwrite_rows (boundary_cell_ids m1) bc cc
           in Inr (cc', m1\<lparr>circumcenters_cache := Some cc'\<rparr>)))"

text \<open>\<^verbatim>\<open>get_new_points\<close> of \<^verbatim>\<open>fixed_point_uniform\<close>.\<close>

definition uniform_get_new_points ::
  "(point list \<Rightarrow> point list) option \<Rightarrow> mesh \<Rightarrow> stop + point list \<times> mesh" where
  "uniform_get_new_points boundary_step m =
     (case uniform_reference m of
        Inl e \<Rightarrow> Inl e
      | Inr (cc, m2) \<Rightarrow>
          (case get_new_points_averaged m2 cc (Some (cell_volumes m2)) of
             Inl e \<Rightarrow> Inl (Raised e)
           | Inr X \<Rightarrow>
               (case reset_boundary boundary_step m2 X of
                  Inl e \<Rightarrow> Inl e
                | Inr X' \<Rightarrow> Inr (X', m2))))"

text \<open>\<^verbatim>\<open>is_boundary_cell\<close> of the density-preserving rule: exactly two of the three
  vertices are boundary points.\<close>

definition is_boundary_cell :: "mesh \<Rightarrow> nat \<Rightarrow> bool" where
  "is_boundary_cell m k =
     (case cells m ! k of (a, b, c) \<Rightarrow>
        length (filter (is_boundary_point m) [a, b, c]) = 2)"

text \<open>The reference array of the density-preserving rule: a copy of the circumcenter
  array, with the rows of those cells overwritten by barycenters.\<close>

definition density_preserving_reference :: "mesh \<Rightarrow> stop + point list \<times> mesh" where
  "density_preserving_reference m =
     (case cell_circumcenters m of
        Inl e \<Rightarrow> Inl e
      | Inr (cc, m1) \<Rightarrow>
          Inr (overwrite_masked (is_boundary_cell m1) (cell_barycenters m1) cc, m1))"

text \<open>\<^verbatim>\<open>get_new_points\<close> of \<^verbatim>\<open>fixed_point_density_preserving\<close>.\<close>

definition density_preserving_get_new_points ::
  "(point list \<Rightarrow> point list) option \<Rightarrow> mesh \<Rightarrow> stop + point list \<times> mesh" where
  "density_preserving_get_new_points boundary_step m =
     (case density_preserving_reference m of
        Inl e \<Rightarrow> Inl e
      | Inr (cc, m1) \<Rightarrow>
          (case get_new_points_averaged m1 cc None of
             Inl e \<Rightarrow> Inl (Raised e)
           | Inr X \<Rightarrow>
               (case reset_boundary boundary_step m1 X of
                  Inl e \<Rightarrow> Inl e
                | Inr X' \<Rightarrow> Inr (X', m1))))"

section \<open>The iteration runner (helpers.py)\<close>

text \<open>
  The runner is modelled as it runs with \<^verbatim>\<open>verbose=False\<close>, \<^verbatim>\<open>callback=None\<close> and
  \<^verbatim>\<open>step_filename_format=None\<close>: printing, snapshots and the callback are left out.
\<close>

text \<open>Modelled from the spec: \<^verbatim>\<open>flip_until_delaunay\<close> is meshplex's, not under src/. It
  re-triangulates in place and changes the cells, not the points or their number (spec,
  section 6), so the re-triangulation is a parameter \<open>flip\<close> that gives the new cells.\<close>

definition flip_until_delaunay :: "(point list \<Rightarrow> cell list \<Rightarrow> cell list) \<Rightarrow> mesh \<Rightarrow> mesh" where
  "flip_until_delaunay flip m = m\<lparr>cells := flip (points m) (cells m), circumcenters_cache := None\<rparr>"

text \<open>\<^verbatim>\<open>omega * (new_points - mesh.points)\<close>. A candidate array of one row is broadcast
  to all points. Any other difference in shape raises: in the subtraction, or, for a mesh of
  one point, at the boolean index of the clamp.\<close>

definition raw_diff :: "real \<Rightarrow> point list \<Rightarrow> point list \<Rightarrow> error + point list" where
  "raw_diff omega new_points pts =
     (if length new_points = length pts then
        Inr (map2 (\<lambda>(nx, ny) (px, py). (omega * (nx - px), omega * (ny - py))) new_points pts)
      else if length new_points = 1 then
        Inr (map (\<lambda>(px, py). (omega * (fst (hd new_points) - px),
                               omega * (snd (hd new_points) - py))) pts)
      else if length pts = 1 then Inl IndexError
      else Inl ValueError)"

text \<open>\<^verbatim>\<open>numpy.minimum\<close> hands on a \<^verbatim>\<open>nan\<close>.\<close>

fun np_minimum :: "npfloat \<Rightarrow> npfloat \<Rightarrow> npfloat" where
  "np_minimum NaN y = NaN"
| "np_minimum x NaN = NaN"
| "np_minimum NegInf y = NegInf"
| "np_minimum x NegInf = NegInf"
| "np_minimum PosInf y = y"
| "np_minimum x PosInf = x"
| "np_minimum (Fin x) (Fin y) = Fin (min x y)"

text \<open>\<^verbatim>\<open>numpy.minimum.at(acc, idx, vals)\<close>.\<close>

fun minimum_at :: "npfloat list \<Rightarrow> nat list \<Rightarrow> npfloat list \<Rightarrow> error + npfloat list" where
  "minimum_at acc (i # idx) (v # vals) =
     (if i < length acc then minimum_at (acc[i := np_minimum (acc ! i) v]) idx vals
      else Inl IndexError)"
| "minimum_at acc idx vals = Inr acc"

definition np_half :: "npfloat \<Rightarrow> npfloat" where
  "np_half x = (case x of Fin r \<Rightarrow> Fin (r * 0.5) | _ \<Rightarrow> x)"

text \<open>\<^verbatim>\<open>numpy.repeat(xs, 3)\<close>.\<close>

definition repeat3 :: "'a list \<Rightarrow> 'a list" where
  "repeat3 xs = concat (map (\<lambda>x. [x, x, x]) xs)"

text \<open>\<^verbatim>\<open>max_step\<close>: for every point half the smallest incircle radius of its cells,
  \<^verbatim>\<open>inf\<close> for a point of no cell.\<close>

definition max_step :: "mesh \<Rightarrow> error + npfloat list" where
  "max_step m =
     (case minimum_at (replicate (length (points m)) PosInf) (cells_flat (cells m))
             (repeat3 (cell_inradius m)) of
        Inl e \<Rightarrow> Inl e
      | Inr ms \<Rightarrow> Inr (map np_half ms))"

text \<open>\<^verbatim>\<open>numpy.einsum("ij,ij->i", diff, diff)\<close>, for one row.\<close>

definition norm2 :: "point \<Rightarrow> real" where
  "norm2 d = fst d * fst d + snd d * snd d"

definition step_length :: "point \<Rightarrow> real" where
  "step_length d = sqrt (norm2 d)"

text \<open>The clamp of one row: \<^verbatim>\<open>idx = step_lengths > max_step\<close> and
  \<^verbatim>\<open>diff[idx] *= max_step[idx, None] / step_lengths[idx, None]\<close>. A comparison with
  \<^verbatim>\<open>nan\<close> is false.\<close>

definition clamp_row :: "npfloat \<Rightarrow> point \<Rightarrow> stop + point" where
  "clamp_row ms d =
     (case ms of
        Fin r \<Rightarrow>
          if step_length d > r then
            (if step_length d = 0 then Inl NonFinite
             else Inr (fst d * (r / step_length d), snd d * (r / step_length d)))
          else Inr d
      | PosInf \<Rightarrow> Inr d
      | NaN \<Rightarrow> Inr d
      | NegInf \<Rightarrow> Inl NonFinite)"

fun clamp :: "npfloat list \<Rightarrow> point list \<Rightarrow> stop + point list" where
  "clamp (ms # mss) (d # ds) =
     (case clamp_row ms d of
        Inl e \<Rightarrow> Inl e
      | Inr d' \<Rightarrow> (case clamp mss ds of Inl e \<Rightarrow> Inl e | Inr ds' \<Rightarrow> Inr (d' # ds')))"
| "clamp mss ds = Inr []"

text \<open>The implicit surface: an object with the methods \<^verbatim>\<open>f\<close> and \<^verbatim>\<open>grad\<close>, which the
  runner calls on the array of all points. They are modelled as functions of one point,
  applied to every column.\<close>

record implicit_surface =
  surface_f :: "point \<Rightarrow> real"
  surface_grad :: "point \<Rightarrow> point"

text \<open>One pass of the projection loop, over all points:
  \<^verbatim>\<open>mesh.points -= (grad * (fval / grad_dot_grad)).T\<close>.\<close>

definition newton_point :: "implicit_surface \<Rightarrow> point \<Rightarrow> point" where
  "newton_point s p =
     (let g = surface_grad s p; q = surface_f s p / norm2 g
      in (fst p - fst g * q, snd p - snd g * q))"

definition newton_sweep :: "implicit_surface \<Rightarrow> point list \<Rightarrow> point list" where
  "newton_sweep s pts = map (newton_point s) pts"

text \<open>\<^verbatim>\<open>numpy.any(numpy.abs(fval) > implicit_surface_tol)\<close>.\<close>

definition off_surface :: "implicit_surface \<Rightarrow> real \<Rightarrow> point list \<Rightarrow> bool" where
  "off_surface s tol pts = list_ex (\<lambda>p. \<bar>surface_f s p\<bar> > tol) pts"

text \<open>The projection loop. It has no bound on its passes, so it is a partial function:
  \<open>None\<close> is the loop that never ends. A gradient of norm zero at some point makes the
  division give \<^verbatim>\<open>nan\<close> or \<^verbatim>\<open>inf\<close>.\<close>

partial_function (option) project_to_surface ::
  "implicit_surface \<Rightarrow> real \<Rightarrow> point list \<Rightarrow> (stop + point list) option" where
  "project_to_surface s tol pts =
     (if off_surface s tol pts then
        (if list_ex (\<lambda>p. norm2 (surface_grad s p) = 0) pts then Some (Inl NonFinite)
         else project_to_surface s tol (newton_sweep s pts))
      else Some (Inr pts))"

text \<open>The displacements of one iteration: \<^verbatim>\<open>diff\<close> as it stands when it is added to the
  points, computed from the candidate points and the mesh before the step.\<close>

definition step_diff :: "real \<Rightarrow> point list \<Rightarrow> mesh \<Rightarrow> stop + point list" where
  "step_diff omega new_points m =
     (case raw_diff omega new_points (points m) of
        Inl e \<Rightarrow> Inl (Raised e)
      | Inr diff0 \<Rightarrow>
          (case max_step m of
             Inl e \<Rightarrow> Inl (Raised e)
           | Inr ms \<Rightarrow> clamp ms diff0))"

text \<open>\<^verbatim>\<open>mesh.points += diff\<close>.\<close>

definition add_diff :: "point list \<Rightarrow> point list \<Rightarrow> point list" where
  "add_diff pts diff = map2 (\<lambda>(px, py) (dx, dy). (px + dx, py + dy)) pts diff"

text \<open>The body of the runner's loop, from \<^verbatim>\<open>get_new_points(mesh)\<close> to the second
  \<^verbatim>\<open>flip_until_delaunay\<close>: it gives the applied displacements \<^verbatim>\<open>diff\<close> and the mesh.\<close>

definition runner_step ::
  "(mesh \<Rightarrow> stop + point list \<times> mesh) \<Rightarrow> (point list \<Rightarrow> cell list \<Rightarrow> cell list) \<Rightarrow> real \<Rightarrow>
   implicit_surface option \<Rightarrow> real \<Rightarrow> mesh \<Rightarrow> (stop + point list \<times> mesh) option" where
  "runner_step get_new_points flip omega implicit_surface implicit_surface_tol m =
     (case get_new_points m of
        Inl e \<Rightarrow> Some (Inl e)
      | Inr (new_points, m1) \<Rightarrow>
          (case step_diff omega new_points m1 of
             Inl e \<Rightarrow> Some (Inl e)
           | Inr diff \<Rightarrow>
               (case (case implicit_surface of
                        None \<Rightarrow> Some (Inr (add_diff (points m1) diff))
                      | Some s \<Rightarrow>
                          project_to_surface s implicit_surface_tol
                            (add_diff (points m1) diff)) of
                  None \<Rightarrow> None
                | Some (Inl e) \<Rightarrow> Some (Inl e)
                | Some (Inr pts') \<Rightarrow>
                    Some (Inr (diff,
                      flip_until_delaunay flip (update_values (m1\<lparr>points := pts'\<rparr>)))))))"

text \<open>\<^verbatim>\<open>numpy.max\<close>: it raises on an empty array.\<close>

definition np_max :: "real list \<Rightarrow> error + real" where
  "np_max xs = (case xs of [] \<Rightarrow> Inl ValueError | x # xs' \<Rightarrow> Inr (fold max xs' x))"

text \<open>\<^verbatim>\<open>is_final\<close> at the end of iteration \<open>k\<close>.\<close>

definition is_final :: "real \<Rightarrow> enat \<Rightarrow> nat \<Rightarrow> point list \<Rightarrow> bool" where
  "is_final tol max_num_steps k diff =
     (list_all (\<lambda>d. norm2 d < tol * tol) diff \<or> max_num_steps \<le> enat k)"

text \<open>What the runner returns: \<^verbatim>\<open>k, numpy.max(numpy.sqrt(diff_norm_2))\<close>, and the mesh it
  has changed in place.\<close>

definition runner_result :: "nat \<Rightarrow> point list \<Rightarrow> mesh \<Rightarrow> stop + nat \<times> real \<times> mesh" where
  "runner_result k diff m =
     (case np_max (map (\<lambda>d. sqrt (norm2 d)) diff) of
        Inl e \<Rightarrow> Inl (Raised e)
      | Inr v \<Rightarrow> Inr (k, v, m))"

text \<open>The loop \<^verbatim>\<open>while True\<close>, entered with the counter \<open>k\<close>. \<open>None\<close> is the run that
  never ends.\<close>

partial_function (option) runner_loop ::
  "(mesh \<Rightarrow> stop + point list \<times> mesh) \<Rightarrow> (point list \<Rightarrow> cell list \<Rightarrow> cell list) \<Rightarrow> real \<Rightarrow>
   enat \<Rightarrow> real \<Rightarrow> implicit_surface option \<Rightarrow> real \<Rightarrow> nat \<Rightarrow> mesh \<Rightarrow>
   (stop + nat \<times> real \<times> mesh) option" where
  "runner_loop get_new_points flip tol max_num_steps omega implicit_surface implicit_surface_tol
     k m =
     (case runner_step get_new_points flip omega implicit_surface implicit_surface_tol m of
        None \<Rightarrow> None
      | Some r \<Rightarrow>
          (if isl r then Some (Inl (projl r))
           else if is_final tol max_num_steps (k + 1) (fst (projr r))
             then Some (runner_result (k + 1) (fst (projr r)) (snd (projr r)))
           else runner_loop get_new_points flip tol max_num_steps omega implicit_surface
                  implicit_surface_tol (k + 1) (snd (projr r))))"

definition runner ::
  "(mesh \<Rightarrow> stop + point list \<times> mesh) \<Rightarrow> (point list \<Rightarrow> cell list \<Rightarrow> cell list) \<Rightarrow> mesh \<Rightarrow> real \<Rightarrow>
   enat \<Rightarrow> real \<Rightarrow> implicit_surface option \<Rightarrow> real \<Rightarrow> (stop + nat \<times> real \<times> mesh) option" where
  "runner get_new_points flip m tol max_num_steps omega implicit_surface implicit_surface_tol =
     runner_loop get_new_points flip tol max_num_steps omega implicit_surface
       implicit_surface_tol 0 (flip_until_delaunay flip m)"

section \<open>The iteration runner on doubles (helpers.py)\<close>

text \<open>
  The runner once more, now with every number a double and every operation of numpy rounded
  as numpy rounds it. What meshplex supplies is a parameter here: \<^verbatim>\<open>mesh.cell_inradius\<close>, a
  function \<open>inradii\<close> of the mesh, and the re-triangulation \<open>flip\<close>. The mesh keeps the
  points and the cells; \<^verbatim>\<open>update_values\<close> recomputes what meshplex derives from them, which
  here is computed from the mesh at every use.
\<close>

type_synonym f64point = "npfloat \<times> npfloat"

record mesh_f64 =
  points_f64 :: "f64point list"
  cells_f64 :: "cell list"

definition flip_until_delaunay_f64 ::
  "(f64point list \<Rightarrow> cell list \<Rightarrow> cell list) \<Rightarrow> mesh_f64 \<Rightarrow> mesh_f64" where
  "flip_until_delaunay_f64 flip m = m\<lparr>cells_f64 := flip (points_f64 m) (cells_f64 m)\<rparr>"

text \<open>\<^verbatim>\<open>omega * (new_points - mesh.points)\<close>, with the broadcast of a candidate array of one
  row. A candidate array of two or more rows on a mesh of one point raises at the boolean
  index of the clamp; any other difference in shape raises a \<^verbatim>\<open>ValueError\<close>, in the
  subtraction or at \<^verbatim>\<open>mesh.points += diff\<close>.\<close>

definition raw_diff_f64 ::
  "npfloat \<Rightarrow> f64point list \<Rightarrow> f64point list \<Rightarrow> error + f64point list" where
  "raw_diff_f64 omega new_points pts =
     (if length new_points = length pts then
        Inr (map2 (\<lambda>(nx, ny) (px, py).
                    (f64_mul omega (f64_sub nx px), f64_mul omega (f64_sub ny py)))
               new_points pts)
      else if length new_points = 1 then
        Inr (map (\<lambda>(px, py). (f64_mul omega (f64_sub (fst (hd new_points)) px),
                               f64_mul omega (f64_sub (snd (hd new_points)) py))) pts)
      else if length pts = 1 \<and> new_points \<noteq> [] then Inl IndexError
      else Inl ValueError)"

text \<open>\<^verbatim>\<open>max_step\<close>: \<^verbatim>\<open>numpy.full(n, inf)\<close>, \<^verbatim>\<open>numpy.minimum.at\<close> over the flattened cells with
  every incircle radius three times, then \<^verbatim>\<open>max_step *= 0.5\<close>.\<close>

definition max_step_f64 :: "(mesh_f64 \<Rightarrow> npfloat list) \<Rightarrow> mesh_f64 \<Rightarrow> error + npfloat list" where
  "max_step_f64 inradii m =
     (if length (inradii m) \<noteq> length (cells_f64 m) then Inl ValueError
      else
        (case minimum_at (replicate (length (points_f64 m)) PosInf) (cells_flat (cells_f64 m))
                (repeat3 (inradii m)) of
           Inl e \<Rightarrow> Inl e
         | Inr ms \<Rightarrow> Inr (map (\<lambda>x. f64_mul x (Fin (1/2))) ms)))"

text \<open>\<^verbatim>\<open>numpy.einsum("ij,ij->i", diff, diff)\<close>, for one row of two components, and its
  square root.\<close>

definition norm2_f64 :: "f64point \<Rightarrow> npfloat" where
  "norm2_f64 d = f64_add (f64_mul (fst d) (fst d)) (f64_mul (snd d) (snd d))"

definition step_length_f64 :: "f64point \<Rightarrow> npfloat" where
  "step_length_f64 d = f64_sqrt (norm2_f64 d)"

text \<open>The clamp of one row: \<^verbatim>\<open>idx = step_lengths > max_step\<close> and
  \<^verbatim>\<open>diff[idx] *= max_step[idx, None] / step_lengths[idx, None]\<close>.\<close>

definition clamp_row_f64 :: "npfloat \<Rightarrow> f64point \<Rightarrow> f64point" where
  "clamp_row_f64 ms d =
     (if f64_less ms (step_length_f64 d) then
        (f64_mul (fst d) (f64_div ms (step_length_f64 d)),
         f64_mul (snd d) (f64_div ms (step_length_f64 d)))
      else d)"

definition clamp_f64 :: "npfloat list \<Rightarrow> f64point list \<Rightarrow> f64point list" where
  "clamp_f64 ms diff = map2 clamp_row_f64 ms diff"

text \<open>The displacements of one iteration, as they are added to the points.\<close>

definition step_diff_f64 ::
  "(mesh_f64 \<Rightarrow> npfloat list) \<Rightarrow> npfloat \<Rightarrow> f64point list \<Rightarrow> mesh_f64 \<Rightarrow> error + f64point list"
  where
  "step_diff_f64 inradii omega new_points m =
     (case raw_diff_f64 omega new_points (points_f64 m) of
        Inl e \<Rightarrow> Inl e
      | Inr diff0 \<Rightarrow>
          (case max_step_f64 inradii m of
             Inl e \<Rightarrow> Inl e
           | Inr ms \<Rightarrow> Inr (clamp_f64 ms diff0)))"

text \<open>\<^verbatim>\<open>mesh.points += diff\<close>.\<close>

definition add_diff_f64 :: "f64point list \<Rightarrow> f64point list \<Rightarrow> f64point list" where
  "add_diff_f64 pts diff = map2 (\<lambda>(px, py) (dx, dy). (f64_add px dx, f64_add py dy)) pts diff"

text \<open>The implicit surface: its methods \<^verbatim>\<open>f\<close> and \<^verbatim>\<open>grad\<close>, as functions of one point.\<close>

record implicit_surface_f64 =
  surface_f64 :: "f64point \<Rightarrow> npfloat"
  surface_grad_f64 :: "f64point \<Rightarrow> f64point"

text \<open>One pass of the projection loop: \<^verbatim>\<open>grad_dot_grad\<close> by \<^verbatim>\<open>einsum\<close>, then
  \<^verbatim>\<open>mesh.points -= (grad * (fval / grad_dot_grad)).T\<close>.\<close>

definition newton_point_f64 :: "implicit_surface_f64 \<Rightarrow> f64point \<Rightarrow> f64point" where
  "newton_point_f64 s p =
     (let g = surface_grad_f64 s p; q = f64_div (surface_f64 s p) (norm2_f64 g)
      in (f64_sub (fst p) (f64_mul (fst g) q), f64_sub (snd p) (f64_mul (snd g) q)))"

definition newton_sweep_f64 :: "implicit_surface_f64 \<Rightarrow> f64point list \<Rightarrow> f64point list" where
  "newton_sweep_f64 s pts = map (newton_point_f64 s) pts"

text \<open>\<^verbatim>\<open>numpy.any(numpy.abs(fval) > implicit_surface_tol)\<close>. A comparison with \<^verbatim>\<open>nan\<close> is
  false.\<close>

definition off_surface_f64 :: "implicit_surface_f64 \<Rightarrow> npfloat \<Rightarrow> f64point list \<Rightarrow> bool" where
  "off_surface_f64 s tol pts = list_ex (\<lambda>p. f64_less tol (f64_abs (surface_f64 s p))) pts"

text \<open>The projection loop. It has no bound on its passes: \<open>None\<close> is the loop that never
  ends.\<close>

partial_function (option) project_to_surface_f64 ::
  "implicit_surface_f64 \<Rightarrow> npfloat \<Rightarrow> f64point list \<Rightarrow> f64point list option" where
  "project_to_surface_f64 s tol pts =
     (if off_surface_f64 s tol pts then project_to_surface_f64 s tol (newton_sweep_f64 s pts)
      else Some pts)"

text \<open>The body of the runner's loop, from \<^verbatim>\<open>get_new_points(mesh)\<close> to the second
  \<^verbatim>\<open>flip_until_delaunay\<close>: it gives the applied displacements \<^verbatim>\<open>diff\<close> and the mesh.\<close>

definition runner_step_f64 ::
  "(mesh_f64 \<Rightarrow> error + f64point list \<times> mesh_f64) \<Rightarrow> (mesh_f64 \<Rightarrow> npfloat list) \<Rightarrow>
   (f64point list \<Rightarrow> cell list \<Rightarrow> cell list) \<Rightarrow> npfloat \<Rightarrow> implicit_surface_f64 option \<Rightarrow>
   npfloat \<Rightarrow> mesh_f64 \<Rightarrow> (error + f64point list \<times> mesh_f64) option" where
  "runner_step_f64 get_new_points inradii flip omega implicit_surface implicit_surface_tol m =
     (case get_new_points m of
        Inl e \<Rightarrow> Some (Inl e)
      | Inr (new_points, m1) \<Rightarrow>
          (case step_diff_f64 inradii omega new_points m1 of
             Inl e \<Rightarrow> Some (Inl e)
           | Inr diff \<Rightarrow>
               (case (case implicit_surface of
                        None \<Rightarrow> Some (add_diff_f64 (points_f64 m1) diff)
                      | Some s \<Rightarrow>
                          project_to_surface_f64 s implicit_surface_tol
                            (add_diff_f64 (points_f64 m1) diff)) of
                  None \<Rightarrow> None
                | Some pts' \<Rightarrow>
                    Some (Inr (diff, flip_until_delaunay_f64 flip (m1\<lparr>points_f64 := pts'\<rparr>))))))"







section \<open>The bound of the step clamp\<close>

text \<open>A cell is incident to a point that is one of its vertices.\<close>

definition cell_has_point :: "cell \<Rightarrow> nat \<Rightarrow> bool" where
  "cell_has_point c p = (case c of (a, b, d) \<Rightarrow> a = p \<or> b = p \<or> d = p)"

text \<open>The incircle radii of the cells incident to point \<open>p\<close>.\<close>

definition incident_inradii :: "mesh \<Rightarrow> nat \<Rightarrow> npfloat list" where
  "incident_inradii m p =
     map (\<lambda>c. inradius (cell_triangle (points m) c)) (filter (\<lambda>c. cell_has_point c p) (cells m))"

text \<open>Half the smallest of them: \<^verbatim>\<open>inf\<close> when there is none, \<^verbatim>\<open>nan\<close> when one of them is.\<close>

definition step_bound :: "mesh \<Rightarrow> nat \<Rightarrow> npfloat" where
  "step_bound m p = np_half (fold (\<lambda>r acc. np_minimum acc r) (incident_inradii m p) PosInf)"

text \<open>The displacement of point \<open>p\<close> before the clamp.\<close>

definition raw_displacement :: "real \<Rightarrow> point list \<Rightarrow> mesh \<Rightarrow> nat \<Rightarrow> point" where
  "raw_displacement omega new_points m p =
     (omega * (fst (new_points ! p) - fst (points m ! p)),
      omega * (snd (new_points ! p) - snd (points m ! p)))"

text \<open>A double that is neither negative nor \<^verbatim>\<open>-inf\<close>.\<close>

definition nonneg_np :: "npfloat \<Rightarrow> bool" where
  "nonneg_np x = (case x of Fin r \<Rightarrow> 0 \<le> r | NegInf \<Rightarrow> False | _ \<Rightarrow> True)"

section \<open>The iterations of a run\<close>

text \<open>The outcome of iteration \<open>n + 1\<close> of the loop entered with mesh \<open>m\<close>: its displacements
  and the mesh after it, when the iterations before it and this one have returned.\<close>

fun nth_iteration ::
  "(mesh \<Rightarrow> stop + point list \<times> mesh) \<Rightarrow> (point list \<Rightarrow> cell list \<Rightarrow> cell list) \<Rightarrow> real \<Rightarrow>
   implicit_surface option \<Rightarrow> real \<Rightarrow> nat \<Rightarrow> mesh \<Rightarrow> (stop + point list \<times> mesh) option" where
  "nth_iteration g fl om s st 0 m = runner_step g fl om s st m"
| "nth_iteration g fl om s st (Suc n) m =
     (case runner_step g fl om s st m of
        Some (Inr (d, m')) \<Rightarrow> nth_iteration g fl om s st n m'
      | r \<Rightarrow> r)"

text \<open>The largest norm among the displacements of an iteration.\<close>

definition max_norm :: "point list \<Rightarrow> real" where
  "max_norm d = Max (set (map (\<lambda>x. sqrt (norm2 x)) d))"

section \<open>Rules and re-triangulations that respect the boundary\<close>

text \<open>A rule that keeps the points and cells of the mesh, returns one candidate per point
  and returns the current position for every boundary point.\<close>

definition boundary_rule :: "(mesh \<Rightarrow> stop + point list \<times> mesh) \<Rightarrow> bool" where
  "boundary_rule g =
     (\<forall>m X m1. g m = Inr (X, m1) \<longrightarrow>
        points m1 = points m \<and> cells m1 = cells m \<and> length X = length (points m) \<and>
        (\<forall>p<length (points m). is_boundary_point m p \<longrightarrow> X ! p = points m ! p))"

text \<open>What the fixation of the boundary needs of the re-triangulation: it flips interior
  edges only, so the boundary points stay the boundary points, and its cells index the same
  points.\<close>

definition boundary_preserving_flip :: "(point list \<Rightarrow> cell list \<Rightarrow> cell list) \<Rightarrow> bool" where
  "boundary_preserving_flip fl =
     ((\<forall>m p. is_boundary_point (flip_until_delaunay fl m) p = is_boundary_point m p) \<and>
      (\<forall>m. cells_in_range m \<longrightarrow> cells_in_range (flip_until_delaunay fl m)))"

section \<open>The fixed-point drivers (odt.py)\<close>

text \<open>\<^verbatim>\<open>fixed_point_uniform\<close> and \<^verbatim>\<open>fixed_point_density_preserving\<close>: build the mesh,
  run the runner with the rule, return the points and cells of the mesh.\<close>

definition fixed_point_uniform ::
  "(point list \<Rightarrow> cell list \<Rightarrow> cell list) \<Rightarrow> point list \<Rightarrow> cell list \<Rightarrow> real \<Rightarrow> enat \<Rightarrow> real \<Rightarrow>
   (point list \<Rightarrow> point list) option \<Rightarrow> implicit_surface option \<Rightarrow> real \<Rightarrow>
   (stop + point list \<times> cell list) option" where
  "fixed_point_uniform flip pts cs tol max_num_steps omega boundary_step implicit_surface
     implicit_surface_tol =
     (case MeshTri pts cs of
        Inl e \<Rightarrow> Some (Inl (Raised e))
      | Inr m \<Rightarrow>
          (case runner (uniform_get_new_points boundary_step) flip m tol max_num_steps omega
                  implicit_surface implicit_surface_tol of
             None \<Rightarrow> None
           | Some (Inl e) \<Rightarrow> Some (Inl e)
           | Some (Inr (k, v, m')) \<Rightarrow> Some (Inr (points m', cells m'))))"

definition fixed_point_density_preserving ::
  "(point list \<Rightarrow> cell list \<Rightarrow> cell list) \<Rightarrow> point list \<Rightarrow> cell list \<Rightarrow> real \<Rightarrow> enat \<Rightarrow> real \<Rightarrow>
   (point list \<Rightarrow> point list) option \<Rightarrow> implicit_surface option \<Rightarrow> real \<Rightarrow>
   (stop + point list \<times> cell list) option" where
  "fixed_point_density_preserving flip pts cs tol max_num_steps omega boundary_step
     implicit_surface implicit_surface_tol =
     (case MeshTri pts cs of
        Inl e \<Rightarrow> Some (Inl (Raised e))
      | Inr m \<Rightarrow>
          (case runner (density_preserving_get_new_points boundary_step) flip m tol
                  max_num_steps omega implicit_surface implicit_surface_tol of
             None \<Rightarrow> None
           | Some (Inl e) \<Rightarrow> Some (Inl e)
           | Some (Inr (k, v, m')) \<Rightarrow> Some (Inr (points m', cells m'))))"

section \<open>The ODT energy (odt.py)\<close>












section \<open>The energy as a sum over the cells\<close>




section \<open>The nonlinear optimizer's gradient and start vector (odt.py)\<close>


text \<open>\<^verbatim>\<open>a.flatten()\<close> of an array of rows.\<close>

definition flatten :: "point list \<Rightarrow> real list" where
  "flatten ps = concat (map (\<lambda>(x, y). [x, y]) ps)"

text \<open>The indices of the interior points, in order: the rows a boolean index with
  \<^verbatim>\<open>mesh.is_interior_point\<close> selects.\<close>

definition interior_ids :: "mesh \<Rightarrow> nat list" where
  "interior_ids m = filter (is_interior_point m) [0..<length (points m)]"




text \<open>\<^verbatim>\<open>x0 = X[mesh.is_interior_point].flatten()\<close>, the start vector handed to the
  optimizer.\<close>

definition x0 :: "mesh \<Rightarrow> point list \<Rightarrow> error + real list" where
  "x0 m X =
     (if length X = length (points m) then Inr (flatten (map (\<lambda>i. X ! i) (interior_ids m)))
      else Inl IndexError)"

section \<open>The gradient of the energy at a point\<close>


section \<open>Example meshes\<close>

text \<open>The unit square, cut into two triangles along the diagonal from point 1 to point 2.\<close>

definition square_mesh :: mesh where
  "square_mesh = \<lparr>points = [(0, 0), (1, 0), (0, 1), (1, 1)], cells = [(0, 1, 2), (1, 3, 2)],
                   circumcenters_cache = None\<rparr>"

text \<open>One triangle and a fourth point that belongs to no cell.\<close>

definition isolated_point_mesh :: mesh where
  "isolated_point_mesh = \<lparr>points = [(0, 0), (1, 0), (0, 1), (5, 5)], cells = [(0, 1, 2)],
                           circumcenters_cache = None\<rparr>"


text \<open>The unit square with a point in its middle, cut into four triangles, and the same
  mesh with the middle point moved down.\<close>

definition cross_mesh :: mesh where
  "cross_mesh = \<lparr>points = [(0, 0), (1, 0), (1, 1), (0, 1), (1/2, 1/2)],
                  cells = [(0, 1, 4), (1, 2, 4), (2, 3, 4), (3, 0, 4)],
                  circumcenters_cache = None\<rparr>"

definition cross_moved :: mesh where
  "cross_moved = cross_mesh\<lparr>points := [(0, 0), (1, 0), (1, 1), (0, 1), (1/2, 1/4)]\<rparr>"


text \<open>The line \<open>x + y = 1\<close> as an implicit surface.\<close>

definition line_surface :: implicit_surface where
  "line_surface = \<lparr>surface_f = (\<lambda>p. fst p + snd p - 1), surface_grad = (\<lambda>p. (1, 1))\<rparr>"

text \<open>A surface object whose \<^verbatim>\<open>f\<close> is the constant \<open>c\<close> and whose \<^verbatim>\<open>grad\<close> is the constant
  \<open>(1, 0)\<close>: its level set for 0 is empty when \<open>c\<close> is not 0.\<close>

definition level_surface :: "real \<Rightarrow> implicit_surface" where
  "level_surface c = \<lparr>surface_f = (\<lambda>p. c), surface_grad = (\<lambda>p. (1, 0))\<rparr>"

text \<open>The four corners of the unit square with the four triangles of a tetrahedron's
  surface: every edge belongs to two cells, so the mesh has no boundary edge.\<close>

definition closed_mesh :: mesh where
  "closed_mesh = \<lparr>points = [(0, 0), (1, 0), (0, 1), (1, 1)],
                   cells = [(0, 1, 2), (0, 1, 3), (0, 2, 3), (1, 2, 3)],
                   circumcenters_cache = None\<rparr>"


text \<open>For a run on doubles: the update rule that proposes the points as they are, incircle
  radii that are all 1, and a re-triangulation that keeps the cells.\<close>

definition keep_points :: "mesh_f64 \<Rightarrow> error + f64point list \<times> mesh_f64" where
  "keep_points m = Inr (points_f64 m, m)"

definition unit_inradii :: "mesh_f64 \<Rightarrow> npfloat list" where
  "unit_inradii m = map (\<lambda>c. Fin 1) (cells_f64 m)"

definition keep_cells :: "f64point list \<Rightarrow> cell list \<Rightarrow> cell list" where
  "keep_cells pts cs = cs"

text \<open>Implicit surfaces on doubles: the line \<open>x + 3y = 0\<close>, the unit circle, and a surface
  object whose \<^verbatim>\<open>f\<close> is the constant \<open>c\<close>.\<close>

definition slanted_line :: implicit_surface_f64 where
  "slanted_line =
     \<lparr>surface_f64 = (\<lambda>p. f64_add (fst p) (f64_mul (Fin 3) (snd p))),
      surface_grad_f64 = (\<lambda>p. (Fin 1, Fin 3))\<rparr>"

definition unit_circle :: implicit_surface_f64 where
  "unit_circle =
     \<lparr>surface_f64 = (\<lambda>p. f64_sub (f64_add (f64_mul (fst p) (fst p)) (f64_mul (snd p) (snd p)))
                              (Fin 1)),
      surface_grad_f64 = (\<lambda>p. (f64_mul (Fin 2) (fst p), f64_mul (Fin 2) (snd p)))\<rparr>"

definition level_surface_f64 :: "npfloat \<Rightarrow> implicit_surface_f64" where
  "level_surface_f64 c = \<lparr>surface_f64 = (\<lambda>p. c), surface_grad_f64 = (\<lambda>p. (Fin 1, Fin 0))\<rparr>"

text \<open>A triangle with two corners off the line \<open>x + 3y = 0\<close>.\<close>

definition slanted_mesh :: mesh_f64 where
  "slanted_mesh =
     \<lparr>points_f64 = [(Fin 10, Fin 0), (Fin 0, Fin 10), (Fin 0, Fin 0)], cells_f64 = [(0, 1, 2)]\<rparr>"

text \<open>The default \<^verbatim>\<open>implicit_surface_tol=1.0e-10\<close>: the double nearest to \<open>10\<^sup>-\<^sup>1\<^sup>0\<close>.\<close>

definition default_surface_tol :: npfloat where
  "default_surface_tol = Fin (7737125245533627 / 77371252455336267181195264)"

section \<open>Rounding to the nearest double\<close>

lemma pow2_powr: "pow2 e = 2 powr (of_int e)"
proof (cases "0 \<le> e")
  case True
  have "2 powr real (nat e) = (2::real) ^ nat e"
    by (rule powr_realpow) simp
  moreover have "real (nat e) = of_int e" using True by simp
  ultimately have "2 powr (of_int e) = (2::real) ^ nat e" by metis
  then show ?thesis using True by (simp add: pow2_def)
next
  case False
  have "2 powr real (nat (- e)) = (2::real) ^ nat (- e)"
    by (rule powr_realpow) simp
  moreover have "real (nat (- e)) = - of_int e" using False by simp
  ultimately have "2 powr (- of_int e) = (2::real) ^ nat (- e)" by metis
  then have "2 powr (of_int e) = 1 / (2::real) ^ nat (- e)"
    using powr_minus_divide[of 2 "- real_of_int e"] by simp
  then show ?thesis using False by (simp add: pow2_def)
qed

lemma pow2_pos [simp]: "0 < pow2 e"
  by (simp add: pow2_powr)

lemma pow2_add: "pow2 (a + b) = pow2 a * pow2 b"
  by (simp add: pow2_powr powr_add)

lemma pow2_diff: "pow2 (a - b) = pow2 a / pow2 b"
  by (simp add: pow2_powr powr_diff)

lemma pow2_mono: "a \<le> b \<Longrightarrow> pow2 a \<le> pow2 b"
  by (simp add: pow2_powr)


lemma pow2_nat: "pow2 (int n) = 2 ^ n"
  by (simp add: pow2_def)

lemma pow2_int: "0 \<le> k \<Longrightarrow> pow2 k = of_int (2 ^ nat k)"
  by (simp add: pow2_def)

lemma round_half_even_error: "\<bar>of_int (round_half_even y) - y\<bar> \<le> 1/2"
  unfolding round_half_even_def Let_def by (auto simp: abs_if) linarith+

lemma round_half_even_int [simp]: "round_half_even (of_int k) = k"
  by (simp add: round_half_even_def)

lemma round_half_even_near:
  assumes "\<bar>y - of_int n\<bar> < 1/2"
  shows "round_half_even y = n"
proof -
  have "\<lfloor>y\<rfloor> = n \<or> \<lfloor>y\<rfloor> = n - 1" using assms by (auto simp: abs_if split: if_splits) linarith+
  then show ?thesis
    using assms unfolding round_half_even_def Let_def
    by (auto simp: abs_if split: if_splits)
qed

lemma round_half_even_mono:
  assumes "x \<le> y"
  shows "round_half_even x \<le> round_half_even y"
proof (rule ccontr)
  assume "\<not> ?thesis"
  then have lt: "round_half_even y + 1 \<le> round_half_even x" by simp
  have ex: "\<bar>of_int (round_half_even x) - x\<bar> \<le> 1/2" by (rule round_half_even_error)
  have ey: "\<bar>of_int (round_half_even y) - y\<bar> \<le> 1/2" by (rule round_half_even_error)
  have "real_of_int (round_half_even y) + 1 \<le> real_of_int (round_half_even x)"
    using lt by linarith
  then have eq: "x = y" "real_of_int (round_half_even x) = x + 1/2"
    "real_of_int (round_half_even y) = y - 1/2"
    using ex ey assms by (auto simp: abs_if split: if_splits)
  then show False using lt by simp
qed

lemma find_upto_Some:
  "find P [a..b] = Some e \<longleftrightarrow> a \<le> e \<and> e \<le> b \<and> P e \<and> (\<forall>k. a \<le> k \<and> k < e \<longrightarrow> \<not> P k)"
proof
  assume "find P [a..b] = Some e"
  then obtain i where i: "i < length [a..b]" "P ([a..b] ! i)" "e = [a..b] ! i"
    "\<forall>j<i. \<not> P ([a..b] ! j)"
    unfolding find_Some_iff by blast
  have e: "e = a + int i" using i(1,3) by (simp add: nth_upto)
  have "\<not> P k" if "a \<le> k" "k < e" for k
  proof -
    have "nat (k - a) < i" using that e by simp
    moreover have "[a..b] ! nat (k - a) = k" using that e i(1) by (simp add: nth_upto)
    ultimately show ?thesis using i(4) by metis
  qed
  then show "a \<le> e \<and> e \<le> b \<and> P e \<and> (\<forall>k. a \<le> k \<and> k < e \<longrightarrow> \<not> P k)"
    using i e by auto
next
  assume r: "a \<le> e \<and> e \<le> b \<and> P e \<and> (\<forall>k. a \<le> k \<and> k < e \<longrightarrow> \<not> P k)"
  let ?i = "nat (e - a)"
  have 1: "?i < length [a..b]" using r by simp
  have 2: "[a..b] ! ?i = e" using r by (simp add: nth_upto)
  have 3: "\<forall>j<?i. \<not> P ([a..b] ! j)"
  proof (intro allI impI)
    fix j assume "j < ?i"
    then have "a + int j < e" by simp
    moreover from this have "[a..b] ! j = a + int j" using r by (intro nth_upto) simp
    ultimately have "[a..b] ! j = a + int j" "a + int j < e" by simp_all
    then show "\<not> P ([a..b] ! j)" using r by simp
  qed
  show "find P [a..b] = Some e"
    unfolding find_Some_iff using 1 2 3 r by (intro exI[of _ ?i]) simp
qed

lemma find_upto_None: "find P [a..b] = None \<longleftrightarrow> (\<forall>k. a \<le> k \<and> k \<le> b \<longrightarrow> \<not> P k)"
  by (auto simp: find_None_iff)

lemma exponent_cases:
  "(exponent x = 1023 \<and> (\<forall>k. - 1022 \<le> k \<and> k \<le> 1022 \<longrightarrow> \<not> \<bar>x\<bar> < pow2 (k + 1))) \<or>
   (- 1022 \<le> exponent x \<and> exponent x \<le> 1022 \<and> \<bar>x\<bar> < pow2 (exponent x + 1) \<and>
    (\<forall>k. - 1022 \<le> k \<and> k < exponent x \<longrightarrow> \<not> \<bar>x\<bar> < pow2 (k + 1)))"
proof (cases "find (\<lambda>e. \<bar>x\<bar> < pow2 (e + 1)) [- 1022 .. 1022]")
  case None
  then have "exponent x = 1023" unfolding exponent_def by (simp only: option.case)
  moreover from None have "\<forall>k. - 1022 \<le> k \<and> k \<le> 1022 \<longrightarrow> \<not> \<bar>x\<bar> < pow2 (k + 1)"
    by (simp only: find_upto_None)
  ultimately show ?thesis by blast
next
  case (Some e)
  then have "exponent x = e" unfolding exponent_def by (simp only: option.case)
  moreover from Some have "- 1022 \<le> e \<and> e \<le> 1022 \<and> \<bar>x\<bar> < pow2 (e + 1) \<and>
      (\<forall>k. - 1022 \<le> k \<and> k < e \<longrightarrow> \<not> \<bar>x\<bar> < pow2 (k + 1))"
    unfolding find_upto_Some by blast
  ultimately show ?thesis by blast
qed

lemma exponent_range: "- 1022 \<le> exponent x" "exponent x \<le> 1023"
  using exponent_cases[of x] by auto


lemma exponent_lower:
  assumes "- 1022 < exponent x"
  shows "pow2 (exponent x) \<le> \<bar>x\<bar>"
proof -
  have "\<not> \<bar>x\<bar> < pow2 ((exponent x - 1) + 1)"
  proof (cases "exponent x = 1023")
    case True
    then have "\<forall>k. - 1022 \<le> k \<and> k \<le> 1022 \<longrightarrow> \<not> \<bar>x\<bar> < pow2 (k + 1)"
      using exponent_cases[of x] by auto
    from this[rule_format, of "exponent x - 1"] show ?thesis using True by simp
  next
    case False
    then have "\<forall>k. - 1022 \<le> k \<and> k < exponent x \<longrightarrow> \<not> \<bar>x\<bar> < pow2 (k + 1)"
      using exponent_cases[of x] by auto
    from this[rule_format, of "exponent x - 1"] show ?thesis using assms by simp
  qed
  then show ?thesis by simp
qed

lemma exponent_eq:
  assumes "- 1022 \<le> e" "e \<le> 1023" "pow2 e \<le> \<bar>x\<bar>" "\<bar>x\<bar> < pow2 (e + 1)"
  shows "exponent x = e"
proof (rule ccontr)
  assume ne: "exponent x \<noteq> e"
  show False
  proof (cases "exponent x < e")
    case True
    then have "exponent x \<le> 1022" using assms(2) by simp
    then have "\<bar>x\<bar> < pow2 (exponent x + 1)" using exponent_cases[of x] by auto
    moreover have "pow2 (exponent x + 1) \<le> pow2 e" using True by (intro pow2_mono) simp
    ultimately show False using assms(3) by simp
  next
    case False
    then have lt: "e < exponent x" using ne by simp
    then have "pow2 (exponent x) \<le> \<bar>x\<bar>" using assms(1) by (intro exponent_lower) simp
    moreover have "pow2 (e + 1) \<le> pow2 (exponent x)" using lt by (intro pow2_mono) simp
    ultimately show False using assms(4) by simp
  qed
qed


lemma exponent_overflow:
  assumes "pow2 1023 \<le> \<bar>x\<bar>"
  shows "exponent x = 1023"
proof (rule ccontr)
  assume "exponent x \<noteq> 1023"
  then have "exponent x \<le> 1022" using exponent_range(2)[of x] by simp
  then have "\<bar>x\<bar> < pow2 (exponent x + 1)" using exponent_cases[of x] by auto
  moreover have "pow2 (exponent x + 1) \<le> pow2 1023"
    using \<open>exponent x \<le> 1022\<close> by (intro pow2_mono) simp
  ultimately show False using assms by simp
qed

lemma exponent_minus [simp]: "exponent (- x) = exponent x"
  by (simp add: exponent_def)

lemma ulp_pos [simp]: "0 < ulp x"
  by (simp add: ulp_def)

lemma ulp_nonzero [simp]: "ulp x \<noteq> 0"
  by (metis ulp_pos less_irrefl)

lemma pow2_nonzero [simp]: "pow2 e \<noteq> 0"
  by (metis pow2_pos less_irrefl)

lemma pow2_nonneg [simp]: "0 \<le> pow2 e"
  by (rule less_imp_le) (rule pow2_pos)

lemma pow2_abs [simp]: "\<bar>pow2 e\<bar> = pow2 e"
  by (rule abs_of_nonneg) (rule pow2_nonneg)

lemma ulp_nonneg [simp]: "0 \<le> ulp x"
  by (simp add: ulp_def)

lemma ulp_abs [simp]: "\<bar>ulp x\<bar> = ulp x"
  by (simp add: ulp_def)

lemma ulp_minus [simp]: "ulp (- x) = ulp x"
  by (simp add: ulp_def)

lemma ulp_le: "ulp x \<le> max (\<bar>x\<bar> / 2 ^ 52) (pow2 (- 1074))"
proof (cases "- 1022 < exponent x")
  case True
  have "ulp x = pow2 (exponent x) / pow2 52" by (simp add: ulp_def pow2_diff)
  also have "\<dots> \<le> \<bar>x\<bar> / pow2 52"
    using exponent_lower[OF True] by (intro divide_right_mono) (simp_all add: less_imp_le)
  finally show ?thesis by (simp add: pow2_def)
next
  case False
  then have "exponent x = - 1022" using exponent_range(1)[of x] by simp
  then show ?thesis by (simp add: ulp_def)
qed

lemma ulp_le_top: "ulp x \<le> pow2 971"
  using exponent_range(2)[of x] by (simp add: ulp_def pow2_mono)

lemma round_half_even_prop:
  "\<bar>y - of_int (round_half_even y)\<bar> < 1/2 \<or>
   (\<bar>y - of_int (round_half_even y)\<bar> = 1/2 \<and> even (round_half_even y))"
  unfolding round_half_even_def Let_def by (auto simp: abs_if) linarith+

lemma round_half_even_unique:
  assumes "\<bar>y - of_int n\<bar> < 1/2 \<or> (\<bar>y - of_int n\<bar> = 1/2 \<and> even n)"
  shows "round_half_even y = n"
proof (cases "\<bar>y - of_int n\<bar> < 1/2")
  case True then show ?thesis by (rule round_half_even_near)
next
  case False
  then have h: "\<bar>y - of_int n\<bar> = 1/2" "even n" using assms by auto
  let ?r = "round_half_even y"
  have p: "\<bar>y - of_int ?r\<bar> < 1/2 \<or> (\<bar>y - of_int ?r\<bar> = 1/2 \<and> even ?r)"
    by (rule round_half_even_prop)
  have "\<bar>real_of_int ?r - real_of_int n\<bar> \<le> 1" using p h(1) by (auto simp: abs_if split: if_splits)
  then have d: "\<bar>?r - n\<bar> \<le> 1" by linarith
  show ?thesis
  proof (rule ccontr)
    assume ne: "?r \<noteq> n"
    then have "\<bar>?r - n\<bar> = 1" using d by linarith
    then have "?r = n + 1 \<or> ?r = n - 1" by linarith
    then have od: "odd ?r" using h(2) by auto
    then have "\<bar>y - of_int ?r\<bar> < 1/2" using p by auto
    moreover have "\<bar>real_of_int ?r - real_of_int n\<bar> = 1"
      using \<open>\<bar>?r - n\<bar> = 1\<close> by (auto simp: abs_if split: if_splits)
    ultimately show False using h(1) by (auto simp: abs_if split: if_splits)
  qed
qed

lemma round_half_even_minus [simp]: "round_half_even (- y) = - round_half_even y"
proof (rule round_half_even_unique)
  have "\<bar>- y - real_of_int (- round_half_even y)\<bar> = \<bar>y - real_of_int (round_half_even y)\<bar>"
    by (simp add: abs_if)
  then show "\<bar>- y - real_of_int (- round_half_even y)\<bar> < 1 / 2 \<or>
      \<bar>- y - real_of_int (- round_half_even y)\<bar> = 1 / 2 \<and> even (- round_half_even y)"
    using round_half_even_prop[of y] by simp
qed

lemma nearest_minus [simp]: "nearest (- x) = - nearest x"
  by (simp add: nearest_def)

lemma nearest_zero [simp]: "nearest 0 = 0"
  using round_half_even_int[of 0] by (simp add: nearest_def)

lemma nearest_error: "\<bar>nearest x - x\<bar> \<le> ulp x / 2"
proof -
  have "nearest x - x = (of_int (round_half_even (x / ulp x)) - x / ulp x) * ulp x"
    by (simp add: nearest_def field_simps)
  then have "\<bar>nearest x - x\<bar> = \<bar>of_int (round_half_even (x / ulp x)) - x / ulp x\<bar> * ulp x"
    using ulp_pos[of x] by (simp add: abs_mult less_imp_le)
  also have "\<dots> \<le> (1/2) * ulp x"
    by (intro mult_right_mono round_half_even_error) (simp add: less_imp_le)
  finally show ?thesis by simp
qed

lemma nearest_error_bound: "\<bar>nearest x - x\<bar> \<le> max (\<bar>x\<bar> / 2 ^ 53) (pow2 (- 1075))"
proof -
  have "ulp x / 2 \<le> max (\<bar>x\<bar> / 2 ^ 52) (pow2 (- 1074)) / 2"
    using ulp_le[of x] by simp
  also have "\<dots> = max (\<bar>x\<bar> / 2 ^ 53) (pow2 (- 1075))"
    by (simp add: max_def pow2_def)
  finally show ?thesis using nearest_error[of x] by simp
qed

lemma nearest_multiple:
  assumes "x = of_int k * ulp x"
  shows "nearest x = x"
proof -
  have "x / ulp x = of_int k" using assms ulp_pos[of x]
    by (metis less_irrefl nonzero_mult_div_cancel_right)
  then show ?thesis using assms by (simp add: nearest_def)
qed


lemma nearest_ge_multiple:
  assumes "of_int k * ulp x \<le> x"
  shows "of_int k * ulp x \<le> nearest x"
proof -
  have "of_int k \<le> x / ulp x" using assms by (simp add: pos_le_divide_eq)
  then have "round_half_even (of_int k) \<le> round_half_even (x / ulp x)"
    by (rule round_half_even_mono)
  then have "of_int k \<le> real_of_int (round_half_even (x / ulp x))" by simp
  then show ?thesis unfolding nearest_def
    by (intro mult_right_mono) (simp_all add: less_imp_le)
qed




lemma binade_high_multiple: "pow2 (exponent x + 1) = of_int (2 ^ 53) * ulp x"
proof -
  have "exponent x + 1 = 53 + (exponent x - 52)" by simp
  then have "pow2 (exponent x + 1) = pow2 53 * pow2 (exponent x - 52)"
    by (metis pow2_add)
  then show ?thesis by (simp add: ulp_def pow2_def)
qed

lemma is_double_minus [simp]: "is_double (- x) = is_double x"
  by (auto simp: is_double_def)

lemma is_double_zero [simp]: "is_double 0"
  by (simp add: is_double_def)


lemma is_doubleI:
  assumes "x = of_int m * pow2 e" "\<bar>m\<bar> < 2 ^ 53" "- 1074 \<le> e" "e \<le> 971"
  shows "is_double x"
proof -
  have m: "\<bar>real_of_int m\<bar> < 2 ^ 53"
  proof -
    have "real_of_int \<bar>m\<bar> < real_of_int (2 ^ 53)" using assms(2) by (simp only: of_int_less_iff)
    then show ?thesis by simp
  qed
  have ax: "\<bar>x\<bar> = \<bar>real_of_int m\<bar> * pow2 e"
    by (simp add: assms(1) abs_mult)
  have lt: "\<bar>x\<bar> < pow2 (e + 53)"
  proof -
    have "\<bar>x\<bar> < 2 ^ 53 * pow2 e" unfolding ax using m by (intro mult_strict_right_mono) simp_all
    also have "\<dots> = pow2 (53 + e)" by (simp add: pow2_add) (simp add: pow2_def)
    finally show ?thesis by (simp add: add.commute)
  qed
  have "pow2 (e + 53) \<le> pow2 1024" using assms(4) by (intro pow2_mono) simp
  then have fin: "\<bar>x\<bar> < pow2 1024" using lt by simp
  let ?ex = "exponent x"
  have ge: "?ex - 52 \<le> e"
  proof (rule ccontr)
    assume "\<not> ?ex - 52 \<le> e"
    then have a: "e + 53 \<le> ?ex" by simp
    then have "- 1022 < ?ex" using assms(3) by simp
    then have "pow2 ?ex \<le> \<bar>x\<bar>" by (rule exponent_lower)
    moreover have "pow2 (e + 53) \<le> pow2 ?ex" using a by (rule pow2_mono)
    ultimately show False using lt by simp
  qed
  have "pow2 e = pow2 (e - (?ex - 52)) * pow2 (?ex - 52)"
    by (simp add: pow2_add[symmetric])
  also have "pow2 (e - (?ex - 52)) = of_int (2 ^ nat (e - (?ex - 52)))"
    using ge by (intro pow2_int) simp
  finally have "x = of_int (m * 2 ^ nat (e - (?ex - 52))) * ulp x"
    by (simp add: assms(1) ulp_def)
  then have "nearest x = x" by (rule nearest_multiple)
  then show ?thesis using fin by (simp add: is_double_def)
qed

lemma is_double_pow2: "- 1074 \<le> e \<Longrightarrow> e \<le> 1023 \<Longrightarrow> is_double (pow2 e)"
proof (cases "e \<le> 971")
  case True
  assume "- 1074 \<le> e"
  then show ?thesis using True by (intro is_doubleI[of _ 1 e]) simp_all
next
  case False
  assume "e \<le> 1023"
  have "pow2 e = pow2 (e - 971) * pow2 971" by (simp add: pow2_add[symmetric])
  also have "pow2 (e - 971) = of_int (2 ^ nat (e - 971))" using False by (intro pow2_int) simp
  finally have eq: "pow2 e = of_int (2 ^ nat (e - 971)) * pow2 971" .
  have "nat (e - 971) \<le> 52" using \<open>e \<le> 1023\<close> by simp
  then have "(2::int) ^ nat (e - 971) \<le> 2 ^ 52" by (intro power_increasing) simp_all
  then have "\<bar>(2::int) ^ nat (e - 971)\<bar> < 2 ^ 53" by simp
  then show ?thesis by (intro is_doubleI[OF eq]) simp_all
qed

lemma is_double_one [simp]: "is_double 1"
  using is_double_pow2[of 0] by (simp add: pow2_def)






lemma nearest_double [simp]: "is_double x \<Longrightarrow> nearest x = x"
  by (simp add: is_double_def)

lemma round_double_exact: "is_double x \<Longrightarrow> round_double x = Fin x"
  by (simp add: round_double_def is_double_def)


lemma round_double_eval:
  assumes "- 1022 \<le> e" "e \<le> 1023" "pow2 e \<le> \<bar>x\<bar>" "\<bar>x\<bar> < pow2 (e + 1)"
    and "\<bar>x / pow2 (e - 52) - of_int n\<bar> < 1/2 \<or>
         (\<bar>x / pow2 (e - 52) - of_int n\<bar> = 1/2 \<and> even n)"
    and "\<bar>of_int n * pow2 (e - 52)\<bar> < pow2 1024"
    and "r = of_int n * pow2 (e - 52)"
  shows "round_double x = Fin r"
proof -
  have e: "exponent x = e" using assms(1-4) by (rule exponent_eq)
  then have u: "ulp x = pow2 (e - 52)" by (simp add: ulp_def)
  have "round_half_even (x / pow2 (e - 52)) = n" using assms(5) by (rule round_half_even_unique)
  then have "nearest x = of_int n * pow2 (e - 52)" by (simp add: nearest_def u)
  then show ?thesis using assms(6) by (simp add: round_double_def assms(7))
qed



lemma round_double_overflow:
  assumes "pow2 1024 \<le> x"
  shows "round_double x = PosInf"
proof -
  have p: "pow2 1023 \<le> pow2 1024" by (intro pow2_mono) simp
  have x0: "0 < x" using assms pow2_pos[of 1024] by linarith
  then have "pow2 1023 \<le> \<bar>x\<bar>" using assms p by simp
  then have e: "exponent x = 1023" by (rule exponent_overflow)
  have h: "pow2 1024 = of_int (2 ^ 53) * ulp x"
    using binade_high_multiple[of x] by (simp add: e)
  have "of_int (2 ^ 53) * ulp x \<le> nearest x"
    using assms unfolding h by (rule nearest_ge_multiple)
  then have "pow2 1024 \<le> \<bar>nearest x\<bar>" unfolding h by linarith
  then show ?thesis using x0 by (simp add: round_double_def)
qed

lemma is_double_dyadic:
  "\<bar>m\<bar> < 2 ^ 53 \<Longrightarrow> - 1074 \<le> e \<Longrightarrow> e \<le> 971 \<Longrightarrow> is_double (of_int m * pow2 e)"
  by (rule is_doubleI[OF refl])

lemma is_double_int: "\<bar>k\<bar> < 2 ^ 53 \<Longrightarrow> is_double (of_int k)"
  using is_double_dyadic[of k 0] by (simp add: pow2_def)

lemma round_double_zero [simp]: "round_double 0 = Fin 0"
  by (simp add: round_double_exact)

lemma round_double_one [simp]: "round_double 1 = Fin 1"
  by (simp add: round_double_exact)




lemma round_double_int: "\<bar>k\<bar> < 2 ^ 53 \<Longrightarrow> round_double (of_int k) = Fin (of_int k)"
  by (intro round_double_exact is_double_int)

lemma round_double_half [simp]: "round_double (1/2) = Fin (1/2)"
  using round_double_exact[OF is_double_pow2[of "- 1"]] by (simp add: pow2_def)

lemma round_double_small [simp]:
  "round_double 2 = Fin 2" "round_double 3 = Fin 3" "round_double 4 = Fin 4"
  using round_double_int[of 2] round_double_int[of 3] round_double_int[of 4] by simp_all

lemma round_double_numeral [simp]:
  "(numeral k :: int) < 2 ^ 53 \<Longrightarrow> round_double (numeral k) = Fin (numeral k)"
  using round_double_int[of "numeral k"] by simp

lemma round_double_neg_numeral [simp]:
  "(numeral k :: int) < 2 ^ 53 \<Longrightarrow> round_double (- numeral k) = Fin (- numeral k)"
  using round_double_int[of "- numeral k"] by simp

lemma round_double_minus: "round_double (- x) = f64_neg (round_double x)"
proof -
  have "\<not> pow2 1024 \<le> 0" using pow2_pos[of 1024] by (simp only: not_le)
  then show ?thesis by (cases "x = 0") (auto simp: round_double_def)
qed

lemma round_double_minus_one [simp]: "round_double (- 1) = Fin (- 1)"
  by (simp add: round_double_minus)


section \<open>The averaging aggregator returns the weighted mean\<close>

lemma bincount_len_ge: "n \<le> bincount_len idx n"
  unfolding bincount_len_def
  by (induction idx arbitrary: n) (auto intro: order_trans[OF max.cobounded2])

lemma fold_max_mono: "a \<le> b \<Longrightarrow> fold max xs a \<le> fold max xs (b::nat)"
  by (induction xs arbitrary: a b) auto

lemma bincount_len_gt: "i \<in> set idx \<Longrightarrow> i < bincount_len idx n"
  unfolding bincount_len_def
proof (induction idx arbitrary: n)
  case Nil then show ?case by simp
next
  case (Cons a idx)
  show ?case
  proof (cases "i = a")
    case True
    have "Suc a \<le> fold max (map Suc idx) (max (Suc a) n)"
      using bincount_len_ge[of "max (Suc a) n" idx] unfolding bincount_len_def by simp
    with True show ?thesis by simp
  next
    case False
    with Cons show ?thesis by simp
  qed
qed

lemma bincount_len_eq: "\<forall>i\<in>set idx. i < n \<Longrightarrow> bincount_len idx n = n"
  unfolding bincount_len_def
  by (induction idx) (auto simp: max_def)

lemma fold_add_length:
  "length (fold (\<lambda>(i, v) acc. acc[i := acc ! i + v]) zs acc) = length (acc::real list)"
  by (induction zs arbitrary: acc) (auto split: prod.splits)

lemma fold_add_nth:
  "p < length acc \<Longrightarrow>
   fold (\<lambda>(i, v) acc. acc[i := acc ! i + v]) zs acc ! p =
     (acc ! p :: real) + sum_list (map (\<lambda>(i, v). if i = p then v else 0) zs)"
proof (induction zs arbitrary: acc)
  case Nil then show ?case by simp
next
  case (Cons z zs)
  obtain i v where z: "z = (i, v)" by (cases z)
  show ?case using Cons.prems
    by (simp add: z Cons.IH nth_list_update)
qed

lemma fold_occ_length:
  "length (fold (\<lambda>i acc. acc[i := Suc (acc ! i)]) idx acc) = length acc"
  by (induction idx arbitrary: acc) auto

lemma fold_occ_nth:
  "p < length acc \<Longrightarrow>
   fold (\<lambda>i acc. acc[i := Suc (acc ! i)]) idx acc ! p = acc ! p + count_list idx p"
  by (induction idx arbitrary: acc) (auto simp: nth_list_update)

lemma col_sums_star_sum:
  "length vals = length cs \<Longrightarrow>
   col_sum p (map (\<lambda>(a, b, c). a) cs) vals + col_sum p (map (\<lambda>(a, b, c). b) cs) vals
     + col_sum p (map (\<lambda>(a, b, c). c) cs) vals = star_sum cs p vals"
proof (induction cs arbitrary: vals)
  case Nil then show ?case by (simp add: col_sum_def star_sum_def)
next
  case (Cons c cs)
  obtain v vs where vals: "vals = v # vs" using Cons.prems by (cases vals) auto
  obtain a b d where c: "c = (a, b, d)" by (cases c)
  have "length vs = length cs" using Cons.prems vals by simp
  from Cons.IH[OF this] show ?case
    by (simp add: col_sum_def star_sum_def vals c multiplicity_def algebra_simps)
qed

lemma bincount_in_range:
  assumes "length idx = length vals" "\<forall>i\<in>set idx. i < n"
  shows "\<exists>b. bincount idx vals n = Inr b \<and> length b = n \<and> (\<forall>p<n. b ! p = col_sum p idx vals)"
  using assms
  by (simp add: bincount_def bincount_len_eq fold_add_length fold_add_nth col_sum_def)

lemma cells_T_in_range:
  "cells_in_range m \<Longrightarrow> col \<in> set (cells_T (cells m)) \<Longrightarrow> \<forall>i\<in>set col. i < length (points m)"
  by (auto simp: cells_in_range_def cells_T_def list_all_iff)

lemma add_column_in_range:
  assumes "length (fst srp) = length idx" "length (snd srp) = length idx"
    "\<forall>i\<in>set idx. i < n" "length acc = n"
  shows "\<exists>r. add_column n srp idx acc = Inr r \<and> length r = n \<and>
           (\<forall>p<n. r ! p = (fst (acc ! p) + col_sum p idx (fst srp),
                           snd (acc ! p) + col_sum p idx (snd srp)))"
proof -
  obtain bx where bx: "bincount idx (fst srp) n = Inr bx" "length bx = n"
    "\<forall>p<n. bx ! p = col_sum p idx (fst srp)"
    using bincount_in_range[of idx "fst srp" n] assms by auto
  obtain by' where by': "bincount idx (snd srp) n = Inr by'" "length by' = n"
    "\<forall>p<n. by' ! p = col_sum p idx (snd srp)"
    using bincount_in_range[of idx "snd srp" n] assms by auto
  show ?thesis
    using bx by' assms(4)
    by (simp add: add_column_def inplace2_def split: prod.splits)
qed

lemma new_points_in_range:
  assumes "cells_in_range m" "length (fst srp) = length (cells m)"
    "length (snd srp) = length (cells m)"
  shows "\<exists>r. for_each (add_column (length (points m)) srp) (cells_T (cells m))
               (replicate (length (points m)) (0, 0)) = Inr r \<and>
           length r = length (points m) \<and>
           (\<forall>p<length (points m). r ! p = (star_sum (cells m) p (fst srp),
                                           star_sum (cells m) p (snd srp)))"
proof -
  let ?n = "length (points m)" and ?cs = "cells m"
  let ?c0 = "map (\<lambda>(a, b, c). a) ?cs" and ?c1 = "map (\<lambda>(a, b, c). b) ?cs"
    and ?c2 = "map (\<lambda>(a, b, c). c) ?cs"
  have rng: "\<forall>i\<in>set ?c0. i < ?n" "\<forall>i\<in>set ?c1. i < ?n" "\<forall>i\<in>set ?c2. i < ?n"
    using assms(1) by (auto simp: cells_in_range_def list_all_iff)
  obtain r0 where r0: "add_column ?n srp ?c0 (replicate ?n (0, 0)) = Inr r0" "length r0 = ?n"
    "\<forall>p<?n. r0 ! p = (col_sum p ?c0 (fst srp), col_sum p ?c0 (snd srp))"
    using add_column_in_range[of srp ?c0 ?n "replicate ?n (0, 0)"] assms(2,3) rng(1) by auto
  obtain r1 where r1: "add_column ?n srp ?c1 r0 = Inr r1" "length r1 = ?n"
    "\<forall>p<?n. r1 ! p = (fst (r0 ! p) + col_sum p ?c1 (fst srp),
                       snd (r0 ! p) + col_sum p ?c1 (snd srp))"
    using add_column_in_range[of srp ?c1 ?n r0] assms(2,3) rng(2) r0(2) by auto
  obtain r2 where r2: "add_column ?n srp ?c2 r1 = Inr r2" "length r2 = ?n"
    "\<forall>p<?n. r2 ! p = (fst (r1 ! p) + col_sum p ?c2 (fst srp),
                       snd (r1 ! p) + col_sum p ?c2 (snd srp))"
    using add_column_in_range[of srp ?c2 ?n r1] assms(2,3) rng(3) r1(2) by auto
  have "for_each (add_column ?n srp) (cells_T ?cs) (replicate ?n (0, 0)) = Inr r2"
    by (simp add: cells_T_def r0(1) r1(1) r2(1))
  moreover have "\<forall>p<?n. r2 ! p = (star_sum ?cs p (fst srp), star_sum ?cs p (snd srp))"
    using r0(3) r1(3) r2(3)
      col_sums_star_sum[of "fst srp" ?cs] col_sums_star_sum[of "snd srp" ?cs] assms(2,3)
    by simp
  ultimately show ?thesis using r2(2) by simp
qed

lemma omega_sum_weights:
  assumes "cells_in_range m" "length w = length (cells m)"
  shows "\<exists>om. omega_sum m (Some w) = Inr om \<and> length om = length (points m) \<and>
           (\<forall>p<length (points m). om ! p = star_sum (cells m) p w)"
proof -
  let ?n = "length (points m)" and ?cs = "cells m"
  let ?c0 = "map (\<lambda>(a, b, c). a) ?cs" and ?c1 = "map (\<lambda>(a, b, c). b) ?cs"
    and ?c2 = "map (\<lambda>(a, b, c). c) ?cs"
  have rng: "\<forall>i\<in>set ?c0. i < ?n" "\<forall>i\<in>set ?c1. i < ?n" "\<forall>i\<in>set ?c2. i < ?n"
    using assms(1) by (auto simp: cells_in_range_def list_all_iff)
  obtain b0 where b0: "bincount ?c0 w ?n = Inr b0" "length b0 = ?n"
    "\<forall>p<?n. b0 ! p = col_sum p ?c0 w"
    using bincount_in_range[of ?c0 w ?n] assms(2) rng(1) by auto
  obtain b1 where b1: "bincount ?c1 w ?n = Inr b1" "length b1 = ?n"
    "\<forall>p<?n. b1 ! p = col_sum p ?c1 w"
    using bincount_in_range[of ?c1 w ?n] assms(2) rng(2) by auto
  obtain b2 where b2: "bincount ?c2 w ?n = Inr b2" "length b2 = ?n"
    "\<forall>p<?n. b2 ! p = col_sum p ?c2 w"
    using bincount_in_range[of ?c2 w ?n] assms(2) rng(3) by auto
  let ?om = "map2 (+) (map2 (+) (map2 (+) (replicate ?n 0) b0) b1) b2"
  have "omega_sum m (Some w) = Inr ?om"
    by (simp add: omega_sum_def cells_T_def b0 b1 b2 inplace2_def)
  moreover have "\<forall>p<?n. ?om ! p = star_sum ?cs p w"
    using b0 b1 b2 by (simp add: col_sums_star_sum[OF assms(2)])
  ultimately show ?thesis using b0(2) b1(2) b2(2) by simp
qed

lemma star_sum_ones:
  "star_sum cs p (replicate (length cs) 1) = real (count_list (cells_flat cs) p)"
  by (induction cs) (auto simp: star_sum_def cells_flat_def multiplicity_def)

lemma omega_sum_none:
  assumes "cells_in_range m"
  shows "\<exists>om. omega_sum m None = Inr om \<and> length om = length (points m) \<and>
           (\<forall>p<length (points m). om ! p = star_sum (cells m) p (replicate (length (cells m)) 1))"
proof -
  have "\<forall>i\<in>set (cells_flat (cells m)). i < length (points m)"
    using assms by (auto simp: cells_in_range_def cells_flat_def list_all_iff)
  then have "bincount_len (cells_flat (cells m)) (length (points m)) = length (points m)"
    by (rule bincount_len_eq)
  then show ?thesis
    by (simp add: omega_sum_def bincount_occ_def fold_occ_length fold_occ_nth star_sum_ones)
qed

lemma map2_mult_ones: "length xs = n \<Longrightarrow> map2 (*) xs (replicate n (1::real)) = xs"
  by (induction xs arbitrary: n) auto

lemma scaled_rp_in_range:
  assumes "length reference_points = length cs"
    and "case weights of None \<Rightarrow> True | Some w \<Rightarrow> length w = length cs"
  shows "scaled_rp reference_points weights =
           Inr (map2 (*) (map fst reference_points) (weights_or_ones cs weights),
                map2 (*) (map snd reference_points) (weights_or_ones cs weights))"
  using assms
  by (auto simp: scaled_rp_def weights_or_ones_def broadcast2_def map2_mult_ones
      split: option.splits)

lemma averaged_rows:
  assumes "cells_in_range m"
    and "length reference_points = length (cells m)"
    and "case weights of None \<Rightarrow> True | Some w \<Rightarrow> length w = length (cells m)"
  shows "\<exists>X. get_new_points_averaged m reference_points weights = Inr X \<and>
           length X = length (points m) \<and>
           (\<forall>p<length (points m).
              X ! p =
                (np_true_divide
                   (star_sum (cells m) p
                      (map2 (*) (map fst reference_points) (weights_or_ones (cells m) weights)))
                   (star_sum (cells m) p (weights_or_ones (cells m) weights)),
                 np_true_divide
                   (star_sum (cells m) p
                      (map2 (*) (map snd reference_points) (weights_or_ones (cells m) weights)))
                   (star_sum (cells m) p (weights_or_ones (cells m) weights))))"
proof -
  let ?w = "weights_or_ones (cells m) weights"
  let ?srp = "(map2 (*) (map fst reference_points) ?w, map2 (*) (map snd reference_points) ?w)"
  have lw: "length ?w = length (cells m)"
    using assms(3) by (simp add: weights_or_ones_def split: option.splits)
  have srp: "scaled_rp reference_points weights = Inr ?srp"
    by (rule scaled_rp_in_range[OF assms(2,3)])
  obtain r where r: "for_each (add_column (length (points m)) ?srp) (cells_T (cells m))
               (replicate (length (points m)) (0, 0)) = Inr r" "length r = length (points m)"
      "\<forall>p<length (points m). r ! p = (star_sum (cells m) p (fst ?srp),
                                           star_sum (cells m) p (snd ?srp))"
    using new_points_in_range[OF assms(1), of ?srp] assms(2) lw by auto
  obtain om where om: "omega_sum m weights = Inr om" "length om = length (points m)"
     "\<forall>p<length (points m). om ! p = star_sum (cells m) p ?w"
  proof (cases weights)
    case None
    then show ?thesis using omega_sum_none[OF assms(1)] that
      by (auto simp: weights_or_ones_def)
  next
    case (Some w)
    then show ?thesis using omega_sum_weights[OF assms(1), of w] assms(3) that
      by (auto simp: weights_or_ones_def)
  qed
  show ?thesis
    using r om by (simp add: get_new_points_averaged_def srp inplace2_def)
qed



section \<open>The averaging aggregator on a degenerate input\<close>

text \<open>
  Claim C8 says that a degenerate input makes the averaging step fail with an error. The
  program has no check there; numpy divides by the zero weight sum and gives \<^verbatim>\<open>nan\<close>. On the
  mesh with a point of no cell the step returns normally, with \<^verbatim>\<open>nan\<close> in the row of that
  point.
\<close>

theorem get_new_points_averaged_isolated_point_returns: "star_sum (cells isolated_point_mesh) 3 (weights_or_ones (cells isolated_point_mesh) None) = 0 \<and>
   get_new_points_averaged isolated_point_mesh [(1/3, 1/3)] None =
     Inr [(Fin (1/3), Fin (1/3)), (Fin (1/3), Fin (1/3)), (Fin (1/3), Fin (1/3)), (NaN, NaN)]"
  by (simp add: isolated_point_mesh_def star_sum_def weights_or_ones_def multiplicity_def
      get_new_points_averaged_def scaled_rp_def cells_T_def add_column_def bincount_def
      bincount_len_def inplace2_def omega_sum_def bincount_occ_def cells_flat_def
      np_true_divide_def)

text \<open>
  Claim C8, amended. On a mesh whose cell indices address points, with one reference point
  per cell and, when weights are given, one weight per cell, a point \<open>p\<close> whose incident
  weight sum is not positive raises nothing: the array is returned normally. Row \<open>p\<close> is
  not finite (\<^verbatim>\<open>nan\<close> or an infinity) when the weight sum is zero, as it is for a point of
  no cell, and it is the quotient of the two sums when the weight sum is negative.
\<close>

theorem get_new_points_averaged_degenerate:
  assumes "cells_in_range m"
    and "length reference_points = length (cells m)"
    and "case weights of None \<Rightarrow> True | Some w \<Rightarrow> length w = length (cells m)"
    and "p < length (points m)"
    and "star_sum (cells m) p (weights_or_ones (cells m) weights) \<le> 0"
  shows "\<exists>X. get_new_points_averaged m reference_points weights = Inr X \<and>
           length X = length (points m) \<and>
           (if star_sum (cells m) p (weights_or_ones (cells m) weights) = 0
            then \<not> is_finite (fst (X ! p)) \<and> \<not> is_finite (snd (X ! p))
            else X ! p = fin_point (weighted_average (cells m) reference_points
                                      (weights_or_ones (cells m) weights) p))"
proof -
  obtain X where X: "get_new_points_averaged m reference_points weights = Inr X"
    "length X = length (points m)"
    "X ! p =
       (np_true_divide
          (star_sum (cells m) p
             (map2 (*) (map fst reference_points) (weights_or_ones (cells m) weights)))
          (star_sum (cells m) p (weights_or_ones (cells m) weights)),
        np_true_divide
          (star_sum (cells m) p
             (map2 (*) (map snd reference_points) (weights_or_ones (cells m) weights)))
          (star_sum (cells m) p (weights_or_ones (cells m) weights)))"
    using averaged_rows[OF assms(1-3)] assms(4) by blast
  have "if star_sum (cells m) p (weights_or_ones (cells m) weights) = 0
        then \<not> is_finite (fst (X ! p)) \<and> \<not> is_finite (snd (X ! p))
        else X ! p = fin_point (weighted_average (cells m) reference_points
                                  (weights_or_ones (cells m) weights) p)"
    by (simp add: X(3) np_true_divide_def weighted_average_def is_finite_def fin_point_def)
  with X(1,2) show ?thesis by blast
qed

text \<open>The theorem at the point of no cell.\<close>

theorem get_new_points_averaged_degenerate_witness:
  "cells_in_range isolated_point_mesh \<and>
   length [(1/3, 1/3) :: point] = length (cells isolated_point_mesh) \<and>
   (3::nat) < length (points isolated_point_mesh) \<and>
   star_sum (cells isolated_point_mesh) 3 (weights_or_ones (cells isolated_point_mesh) None) \<le> 0 \<and>
   (\<exists>X. get_new_points_averaged isolated_point_mesh [(1/3, 1/3)] None = Inr X \<and>
        length X = length (points isolated_point_mesh) \<and>
        \<not> is_finite (fst (X ! 3)) \<and> \<not> is_finite (snd (X ! 3)))"
  using get_new_points_averaged_degenerate[of isolated_point_mesh "[(1/3, 1/3)]" None 3]
  by (simp add: isolated_point_mesh_def cells_in_range_def star_sum_def weights_or_ones_def
      multiplicity_def)

section \<open>The reference arrays of the two ODT rules\<close>

lemma square_boundary_edges: "boundary_edges (cells square_mesh) = [(0, 2), (0, 1), (2, 3), (1, 3)]"
  by (simp add: square_mesh_def boundary_edges_def all_edges_def cell_edges_def edge_def
      is_boundary_edge_def)

lemma square_is_boundary_point: "is_boundary_point square_mesh p = (p \<in> {0, 1, 2, 3})"
  by (auto simp add: is_boundary_point_def square_boundary_edges)

lemma square_boundary_cell_ids: "boundary_cell_ids square_mesh = [0, 0, 1, 1]"
  by (simp add: boundary_cell_ids_def square_mesh_def all_edges_def cell_edges_def edge_def
      is_boundary_edge_def upt_rec[of 0] upt_rec[of 1] upt_rec[of 2])

lemma square_compute_circumcenters: "compute_circumcenters square_mesh = Inr [(1/2, 1/2), (1/2, 1/2)]"
  by (simp add: compute_circumcenters_def square_mesh_def cell_triangle_def circumcenter_def)

lemma square_cell_circumcenters: "cell_circumcenters square_mesh =
      Inr ([(1/2, 1/2), (1/2, 1/2)],
           square_mesh\<lparr>circumcenters_cache := Some [(1/2, 1/2), (1/2, 1/2)]\<rparr>)"
  proof -
    have "circumcenters_cache square_mesh = None" by (simp add: square_mesh_def)
    then show ?thesis by (simp add: cell_circumcenters_def square_compute_circumcenters)
  qed

lemma square_cell_barycenters: "cell_barycenters (square_mesh\<lparr>circumcenters_cache := Some [(1/2, 1/2), (1/2, 1/2)]\<rparr>)
      = [(1/3, 1/3), (2/3, 2/3)]"
    "cell_barycenters square_mesh = [(1/3, 1/3), (2/3, 2/3)]"
    by (simp_all add: cell_barycenters_def square_mesh_def cell_triangle_def barycenter_def)

lemma square_cached_boundary_cell_ids: "boundary_cell_ids (square_mesh\<lparr>circumcenters_cache := Some [(1/2, 1/2), (1/2, 1/2)]\<rparr>)
      = [0, 0, 1, 1]"
    using square_boundary_cell_ids by (simp add: boundary_cell_ids_def)

lemma square_cached_is_boundary_point: "is_boundary_point (square_mesh\<lparr>circumcenters_cache := Some [(1/2, 1/2), (1/2, 1/2)]\<rparr>) p
      = (p \<in> {0, 1, 2, 3})"
    using square_is_boundary_point by (simp add: is_boundary_point_def)

lemma square_cell0_not_boundary_cell: "\<not> is_boundary_cell (square_mesh\<lparr>circumcenters_cache := Some [(1/2, 1/2), (1/2, 1/2)]\<rparr>) 0"
  by (simp add: is_boundary_cell_def square_cached_is_boundary_point) (simp add: square_mesh_def)

lemma square_cell1_not_boundary_cell: "\<not> is_boundary_cell (square_mesh\<lparr>circumcenters_cache := Some [(1/2, 1/2), (1/2, 1/2)]\<rparr>) (Suc 0)"
  by (simp add: is_boundary_cell_def square_cached_is_boundary_point) (simp add: square_mesh_def)

lemma square_uniform_reference: "\<exists>m'. uniform_reference square_mesh = Inr ([(1/3, 1/3), (2/3, 2/3)], m')"
    by (simp add: uniform_reference_def square_cell_circumcenters square_cell_barycenters square_cached_boundary_cell_ids overwrite_rows_def Let_def)

lemma square_density_preserving_reference: "\<exists>m'. density_preserving_reference square_mesh = Inr ([(1/2, 1/2), (1/2, 1/2)], m')"
    by (simp add: density_preserving_reference_def square_cell_circumcenters square_cell_barycenters overwrite_masked_def square_cell0_not_boundary_cell square_cell1_not_boundary_cell
        upt_conv_Cons)

text \<open>
  Claim C7 on the unit square cut in two: both cells have boundary edges (and all three
  vertices on the boundary). The uniform rule hands the aggregator the barycenters of both
  cells; the density-preserving rule, which looks for exactly two boundary vertices, hands
  it the circumcenters of both.
\<close>

theorem references_differ_on_square:
  "(\<exists>m'. uniform_reference square_mesh = Inr ([(1/3, 1/3), (2/3, 2/3)], m')) \<and>
   (\<exists>m'. density_preserving_reference square_mesh = Inr ([(1/2, 1/2), (1/2, 1/2)], m')) \<and>
   cell_barycenters square_mesh = [(1/3, 1/3), (2/3, 2/3)] \<and>
   compute_circumcenters square_mesh = Inr [(1/2, 1/2), (1/2, 1/2)] \<and>
   boundary_cell_ids square_mesh = [0, 0, 1, 1]"
  using square_uniform_reference square_density_preserving_reference
    square_cell_barycenters(2) square_compute_circumcenters square_boundary_cell_ids
  by simp


section \<open>The energy is not negative\<close>






















section \<open>The gradient handed to the optimizer\<close>





lemma those_length: "those xs = Some ys \<Longrightarrow> length ys = length xs"
  by (induction xs arbitrary: ys) (auto split: option.splits)

lemma compute_circumcenters_length:
  "compute_circumcenters m = Inr cc \<Longrightarrow> length cc = length (cells m)"
  by (auto simp: compute_circumcenters_def split: option.splits dest: those_length)

lemma compute_circumcenters_cache:
  "compute_circumcenters (m\<lparr>circumcenters_cache := c\<rparr>) = compute_circumcenters m"
  by (simp add: compute_circumcenters_def)










lemma cross_boundary_edges: "boundary_edges (cells cross_mesh) = [(0, 1), (1, 2), (2, 3), (0, 3)]"
  by (simp add: cross_mesh_def boundary_edges_def all_edges_def cell_edges_def edge_def
      is_boundary_edge_def)

lemma cross_is_boundary_point: "is_boundary_point cross_mesh p = (p \<in> {0, 1, 2, 3})"
  by (auto simp add: is_boundary_point_def cross_boundary_edges)





lemma cross_moved_circumcenters:
  "compute_circumcenters cross_moved =
     Inr [(1/2, - (3/8)), (15/16, 1/2), (1/2, 19/24), (1/16, 1/2)]"
  by (simp add: compute_circumcenters_def cross_moved_def cross_mesh_def cell_triangle_def
      circumcenter_def)



section \<open>The step clamp\<close>

lemma np_minimum_idem: "np_minimum (np_minimum a v) v = np_minimum a v"
  by (cases a; cases v) simp_all

lemma nonneg_np_minimum: "nonneg_np a \<Longrightarrow> nonneg_np v \<Longrightarrow> nonneg_np (np_minimum a v)"
  by (cases a; cases v) (simp_all add: nonneg_np_def)

lemma nonneg_np_half: "nonneg_np x \<Longrightarrow> nonneg_np (np_half x)"
  by (cases x) (simp_all add: nonneg_np_def np_half_def)

lemma dist2_nonneg: "0 \<le> dist2 p q"
  by (simp add: dist2_def)

lemma nonneg_inradius: "nonneg_np (inradius t)"
proof -
  have "0 \<le> perimeter t"
    by (cases t rule: prod_cases3) (simp add: perimeter_def dist2_nonneg)
  moreover have "0 \<le> 2 * volume t" by (simp add: volume_def)
  ultimately show ?thesis
    by (auto simp: inradius_def np_true_divide_def nonneg_np_def)
qed

lemma minimum_at_nth:
  assumes "length idx = length vals" "\<forall>i\<in>set idx. i < length acc"
  shows "\<exists>acc'. minimum_at acc idx vals = Inr acc' \<and> length acc' = length acc \<and>
           (\<forall>p<length acc. acc' ! p =
              fold (\<lambda>r a. np_minimum a r) (map snd (filter (\<lambda>(i, v). i = p) (zip idx vals)))
                (acc ! p))"
  using assms
proof (induction idx vals arbitrary: acc rule: list_induct2)
  case Nil then show ?case by simp
next
  case (Cons i idx v vals)
  let ?acc = "acc[i := np_minimum (acc ! i) v]"
  have "\<forall>i\<in>set idx. i < length ?acc" using Cons.prems by simp
  from Cons.IH[OF this] obtain acc' where a:
    "minimum_at ?acc idx vals = Inr acc'" "length acc' = length ?acc"
    "\<forall>p<length ?acc. acc' ! p =
        fold (\<lambda>r a. np_minimum a r) (map snd (filter (\<lambda>(i, v). i = p) (zip idx vals))) (?acc ! p)"
    by blast
  have "minimum_at acc (i # idx) (v # vals) = Inr acc'"
    using Cons.prems a(1) by simp
  moreover have "\<forall>p<length acc. acc' ! p =
              fold (\<lambda>r a. np_minimum a r)
                (map snd (filter (\<lambda>(i, v). i = p) (zip (i # idx) (v # vals)))) (acc ! p)"
    using a(3) Cons.prems by (auto simp: nth_list_update)
  ultimately show ?case using a(2) by simp
qed

lemma fold_flat_incident:
  "fold (\<lambda>r a. np_minimum a r)
     (map snd (filter (\<lambda>(i, v). i = p)
        (zip (cells_flat cs) (repeat3 (map (\<lambda>c. inradius (cell_triangle pts c)) cs))))) a
   = fold (\<lambda>r a. np_minimum a r)
       (map (\<lambda>c. inradius (cell_triangle pts c)) (filter (\<lambda>c. cell_has_point c p) cs)) a"
proof (induction cs arbitrary: a)
  case Nil then show ?case by (simp add: cells_flat_def repeat3_def)
next
  case (Cons c cs)
  obtain x y z where c: "c = (x, y, z)" by (cases c)
  have flat: "cells_flat (c # cs) = [x, y, z] @ cells_flat cs"
    by (simp add: cells_flat_def c)
  have rep: "repeat3 (map (\<lambda>c. inradius (cell_triangle pts c)) (c # cs)) =
      [inradius (cell_triangle pts c), inradius (cell_triangle pts c), inradius (cell_triangle pts c)]
        @ repeat3 (map (\<lambda>c. inradius (cell_triangle pts c)) cs)"
    by (simp add: repeat3_def)
  show ?case
    unfolding flat rep
    by (simp add: Cons.IH cell_has_point_def c np_minimum_idem)
qed

lemma length_cells_flat: "length (cells_flat cs) = 3 * length cs"
  by (induction cs) (auto simp: cells_flat_def)

lemma length_repeat3: "length (repeat3 xs) = 3 * length xs"
  by (induction xs) (auto simp: repeat3_def)

lemma max_step_bound:
  assumes "cells_in_range m"
  shows "\<exists>ms. max_step m = Inr ms \<and> length ms = length (points m) \<and>
           (\<forall>p<length (points m). ms ! p = step_bound m p)"
proof -
  let ?n = "length (points m)"
  have rng: "\<forall>i\<in>set (cells_flat (cells m)). i < length (replicate ?n PosInf)"
    using assms by (auto simp: cells_in_range_def cells_flat_def list_all_iff)
  have len: "length (cells_flat (cells m)) = length (repeat3 (cell_inradius m))"
    by (simp add: length_cells_flat length_repeat3 cell_inradius_def)
  obtain acc where acc:
    "minimum_at (replicate ?n PosInf) (cells_flat (cells m)) (repeat3 (cell_inradius m)) = Inr acc"
    "length acc = ?n"
    "\<forall>p<?n. acc ! p =
        fold (\<lambda>r a. np_minimum a r)
          (map snd (filter (\<lambda>(i, v). i = p)
             (zip (cells_flat (cells m)) (repeat3 (cell_inradius m)))))
          (replicate ?n PosInf ! p)"
    using minimum_at_nth[OF len rng] by auto
  have "\<forall>p<?n. map np_half acc ! p = step_bound m p"
    using acc(2,3)
    by (simp add: step_bound_def incident_inradii_def cell_inradius_def fold_flat_incident)
  then show ?thesis
    using acc(1,2) by (simp add: max_step_def)
qed

lemma nonneg_fold_minimum:
  "nonneg_np a \<Longrightarrow> \<forall>r\<in>set rs. nonneg_np r \<Longrightarrow>
   nonneg_np (fold (\<lambda>r a. np_minimum a r) rs a)"
  by (induction rs arbitrary: a) (auto intro: nonneg_np_minimum)

lemma nonneg_step_bound: "nonneg_np (step_bound m p)"
proof -
  have "nonneg_np PosInf" by (simp add: nonneg_np_def)
  moreover have "\<forall>r\<in>set (incident_inradii m p). nonneg_np r"
    using nonneg_inradius by (auto simp: incident_inradii_def)
  ultimately show ?thesis
    unfolding step_bound_def by (intro nonneg_np_half nonneg_fold_minimum)
qed

lemma norm2_nonneg: "0 \<le> norm2 d"
  by (simp add: norm2_def)

lemma step_length_nonneg: "0 \<le> step_length d"
  by (simp add: step_length_def norm2_nonneg)


lemma clamp_nth:
  assumes "length ms = length ds" "\<forall>x\<in>set ms. nonneg_np x"
  shows "\<exists>ds'. clamp ms ds = Inr ds' \<and> length ds' = length ds \<and>
           (\<forall>p<length ds. clamp_row (ms ! p) (ds ! p) = Inr (ds' ! p))"
  using assms
proof (induction ms ds rule: list_induct2)
  case Nil then show ?case by simp
next
  case (Cons x ms d ds)
  obtain ds' where ds': "clamp ms ds = Inr ds'" "length ds' = length ds"
    "\<forall>p<length ds. clamp_row (ms ! p) (ds ! p) = Inr (ds' ! p)"
    using Cons by auto
  have "nonneg_np x" using Cons.prems by simp
  then have "\<exists>d'. clamp_row x d = Inr d'"
    using step_length_nonneg[of d]
    by (cases x) (auto simp: clamp_row_def nonneg_np_def)
  then obtain d' where d': "clamp_row x d = Inr d'" ..
  have "clamp (x # ms) (d # ds) = Inr (d' # ds')"
    by (simp add: d' ds'(1))
  moreover have "\<forall>p<length (d # ds). clamp_row ((x # ms) ! p) ((d # ds) ! p) = Inr ((d' # ds') ! p)"
    using d' ds'(3) by (auto simp: nth_Cons split: nat.splits)
  ultimately show ?case using ds'(2) by simp
qed

lemma raw_diff_nth:
  assumes "length new_points = length (points m)"
  shows "\<exists>diff0. raw_diff omega new_points (points m) = Inr diff0 \<and>
           length diff0 = length (points m) \<and>
           (\<forall>p<length (points m). diff0 ! p = raw_displacement omega new_points m p)"
  using assms by (simp add: raw_diff_def raw_displacement_def case_prod_unfold)









section \<open>The points after the re-triangulation\<close>

lemma points_flip_until_delaunay: "points (flip_until_delaunay flip m) = points m"
  by (simp add: flip_until_delaunay_def)

section \<open>The projection onto the implicit surface\<close>

lemma project_to_surface_f64_returns:
  assumes "project_to_surface_f64 s tol pts = Some pts'"
  shows "\<not> off_surface_f64 s tol pts' \<and>
         (\<exists>k. pts' = (newton_sweep_f64 s ^^ k) pts \<and>
              (\<forall>j<k. off_surface_f64 s tol ((newton_sweep_f64 s ^^ j) pts)))"
  using assms
proof (induct rule: project_to_surface_f64.raw_induct[rotated 1, consumes 1])
  case (1 project_to_surface s tol pts pts')
  show ?case
  proof (cases "off_surface_f64 s tol pts")
    case False
    with 1(2) have "pts' = pts" by simp
    with False show ?thesis by (auto intro: exI[of _ 0])
  next
    case True
    with 1(2) have "project_to_surface s tol (newton_sweep_f64 s pts) = Some pts'" by simp
    from 1(1)[OF this] obtain k where k: "\<not> off_surface_f64 s tol pts'"
      "pts' = (newton_sweep_f64 s ^^ k) (newton_sweep_f64 s pts)"
      "\<forall>j<k. off_surface_f64 s tol ((newton_sweep_f64 s ^^ j) (newton_sweep_f64 s pts))"
      by blast
    have a: "pts' = (newton_sweep_f64 s ^^ Suc k) pts"
      using k(2) by (simp add: funpow_swap1)
    have b: "\<forall>j<Suc k. off_surface_f64 s tol ((newton_sweep_f64 s ^^ j) pts)"
    proof (intro allI impI)
      fix j assume "j < Suc k"
      then show "off_surface_f64 s tol ((newton_sweep_f64 s ^^ j) pts)"
        using True k(3) by (cases j) (auto simp: funpow_swap1)
    qed
    from k(1) a b show ?thesis by blast
  qed
qed

lemma project_to_surface_f64_first:
  assumes "\<not> off_surface_f64 s tol ((newton_sweep_f64 s ^^ k) pts)"
    and "\<forall>j<k. off_surface_f64 s tol ((newton_sweep_f64 s ^^ j) pts)"
  shows "project_to_surface_f64 s tol pts = Some ((newton_sweep_f64 s ^^ k) pts)"
  using assms
proof (induction k arbitrary: pts)
  case 0
  then show ?case by (subst project_to_surface_f64.simps) simp
next
  case (Suc k)
  have off: "off_surface_f64 s tol pts" using Suc.prems(2) by force
  have a: "\<not> off_surface_f64 s tol ((newton_sweep_f64 s ^^ k) (newton_sweep_f64 s pts))"
    using Suc.prems(1) by (simp add: funpow_swap1)
  have b: "\<forall>j<k. off_surface_f64 s tol ((newton_sweep_f64 s ^^ j) (newton_sweep_f64 s pts))"
  proof (intro allI impI)
    fix j assume "j < k"
    then have "Suc j < Suc k" by simp
    with Suc.prems(2) have "off_surface_f64 s tol ((newton_sweep_f64 s ^^ Suc j) pts)"
      by blast
    then show "off_surface_f64 s tol ((newton_sweep_f64 s ^^ j) (newton_sweep_f64 s pts))"
      by (simp add: funpow_swap1)
  qed
  have "project_to_surface_f64 s tol pts = project_to_surface_f64 s tol (newton_sweep_f64 s pts)"
    using off by (subst project_to_surface_f64.simps) simp
  also have "\<dots> = Some ((newton_sweep_f64 s ^^ k) (newton_sweep_f64 s pts))"
    by (rule Suc.IH[OF a b])
  finally show ?case by (simp add: funpow_swap1)
qed

lemma project_to_surface_f64_never:
  assumes "project_to_surface_f64 s tol pts = Some pts'"
  shows "\<not> (pts \<noteq> [] \<and> (\<forall>p. f64_less tol (f64_abs (surface_f64 s p))))"
  using assms
proof (induct rule: project_to_surface_f64.raw_induct[rotated 1, consumes 1])
  case (1 project_to_surface s tol pts pts')
  show ?case
  proof
    assume a: "pts \<noteq> [] \<and> (\<forall>p. f64_less tol (f64_abs (surface_f64 s p)))"
    then have off: "off_surface_f64 s tol pts"
      by (cases pts) (auto simp: off_surface_f64_def)
    have "project_to_surface s tol (newton_sweep_f64 s pts) = Some pts'"
      using 1(2) off by simp
    from 1(1)[OF this] a show False by (simp add: newton_sweep_f64_def)
  qed
qed

text \<open>
  Claim C9, amended. With an implicit surface the runner, after it has applied the
  displacements, moves all points at once by \<open>x \<leftarrow> x - f(x) \<nabla>f(x) / \<parallel>\<nabla>f(x)\<parallel>\<^sup>2\<close>, evaluates
  \<open>f\<close> again, and leaves the loop after the first pass at whose end no point has
  \<open>\<bar>f(x)\<bar> > implicit_surface_tol\<close>; a value \<^verbatim>\<open>nan\<close> of \<open>f\<close> does not exceed the tolerance. The
  loop returns exactly when some pass ends so. It has no cap: for an \<open>f\<close> that exceeds the
  tolerance at every point it never returns, and then the iteration of the runner never
  returns either; when it returns, the iteration goes on with the projected points.
\<close>

theorem project_to_surface_f64_exit:
  "(project_to_surface_f64 s tol pts = Some pts' \<longleftrightarrow>
      (\<exists>k. pts' = (newton_sweep_f64 s ^^ k) pts \<and>
           \<not> off_surface_f64 s tol pts' \<and>
           (\<forall>j<k. off_surface_f64 s tol ((newton_sweep_f64 s ^^ j) pts)))) \<and>
   (off_surface_f64 s tol pts \<longleftrightarrow> (\<exists>p\<in>set pts. f64_less tol (f64_abs (surface_f64 s p)))) \<and>
   newton_sweep_f64 s pts =
     map (\<lambda>p. (f64_sub (fst p)
                  (f64_mul (fst (surface_grad_f64 s p))
                     (f64_div (surface_f64 s p) (norm2_f64 (surface_grad_f64 s p)))),
                f64_sub (snd p)
                  (f64_mul (snd (surface_grad_f64 s p))
                     (f64_div (surface_f64 s p) (norm2_f64 (surface_grad_f64 s p)))))) pts \<and>
   (pts0 \<noteq> [] \<and> (\<forall>p. f64_less tol0 (f64_abs (surface_f64 s0 p)))
      \<longrightarrow> project_to_surface_f64 s0 tol0 pts0 = None) \<and>
   (g m = Inr (new_points, m1) \<and> step_diff_f64 ir om new_points m1 = Inr diff
      \<longrightarrow> runner_step_f64 g ir fl om (Some s) tol m =
            (case project_to_surface_f64 s tol (add_diff_f64 (points_f64 m1) diff) of
               None \<Rightarrow> None
             | Some pts2 \<Rightarrow>
                 Some (Inr (diff, flip_until_delaunay_f64 fl (m1\<lparr>points_f64 := pts2\<rparr>)))))"
proof (intro conjI)
  show "project_to_surface_f64 s tol pts = Some pts' \<longleftrightarrow>
      (\<exists>k. pts' = (newton_sweep_f64 s ^^ k) pts \<and>
           \<not> off_surface_f64 s tol pts' \<and>
           (\<forall>j<k. off_surface_f64 s tol ((newton_sweep_f64 s ^^ j) pts)))"
  proof
    assume "project_to_surface_f64 s tol pts = Some pts'"
    from project_to_surface_f64_returns[OF this]
    show "\<exists>k. pts' = (newton_sweep_f64 s ^^ k) pts \<and>
           \<not> off_surface_f64 s tol pts' \<and>
           (\<forall>j<k. off_surface_f64 s tol ((newton_sweep_f64 s ^^ j) pts))" by blast
  next
    assume "\<exists>k. pts' = (newton_sweep_f64 s ^^ k) pts \<and>
           \<not> off_surface_f64 s tol pts' \<and>
           (\<forall>j<k. off_surface_f64 s tol ((newton_sweep_f64 s ^^ j) pts))"
    then obtain k where k: "pts' = (newton_sweep_f64 s ^^ k) pts"
      "\<not> off_surface_f64 s tol ((newton_sweep_f64 s ^^ k) pts)"
      "\<forall>j<k. off_surface_f64 s tol ((newton_sweep_f64 s ^^ j) pts)" by blast
    from project_to_surface_f64_first[OF k(2,3)] k(1)
    show "project_to_surface_f64 s tol pts = Some pts'" by simp
  qed
next
  show "off_surface_f64 s tol pts \<longleftrightarrow> (\<exists>p\<in>set pts. f64_less tol (f64_abs (surface_f64 s p)))"
    by (simp add: off_surface_f64_def list_ex_iff)
next
  show "newton_sweep_f64 s pts =
     map (\<lambda>p. (f64_sub (fst p)
                  (f64_mul (fst (surface_grad_f64 s p))
                     (f64_div (surface_f64 s p) (norm2_f64 (surface_grad_f64 s p)))),
                f64_sub (snd p)
                  (f64_mul (snd (surface_grad_f64 s p))
                     (f64_div (surface_f64 s p) (norm2_f64 (surface_grad_f64 s p)))))) pts"
    by (simp add: newton_sweep_f64_def newton_point_f64_def Let_def)
next
  show "pts0 \<noteq> [] \<and> (\<forall>p. f64_less tol0 (f64_abs (surface_f64 s0 p)))
      \<longrightarrow> project_to_surface_f64 s0 tol0 pts0 = None"
  proof
    assume a: "pts0 \<noteq> [] \<and> (\<forall>p. f64_less tol0 (f64_abs (surface_f64 s0 p)))"
    show "project_to_surface_f64 s0 tol0 pts0 = None"
    proof (cases "project_to_surface_f64 s0 tol0 pts0")
      case (Some y)
      from project_to_surface_f64_never[OF this] a show ?thesis by blast
    qed simp
  qed
next
  show "g m = Inr (new_points, m1) \<and> step_diff_f64 ir om new_points m1 = Inr diff
      \<longrightarrow> runner_step_f64 g ir fl om (Some s) tol m =
            (case project_to_surface_f64 s tol (add_diff_f64 (points_f64 m1) diff) of
               None \<Rightarrow> None
             | Some pts2 \<Rightarrow>
                 Some (Inr (diff, flip_until_delaunay_f64 fl (m1\<lparr>points_f64 := pts2\<rparr>))))"
    by (simp add: runner_step_f64_def)
qed

lemma slanted_mesh_sweep:
  "newton_sweep_f64 slanted_line [(Fin 10, Fin 0), (Fin 0, Fin 10), (Fin 0, Fin 0)]
     = [(Fin 9, Fin (- 3)), (Fin (- 3), Fin 1), (Fin 0, Fin 0)]"
  by (simp add: newton_sweep_f64_def newton_point_f64_def slanted_line_def norm2_f64_def
      f64_sub_def Let_def)

lemma slanted_mesh_step_diff:
  "step_diff_f64 unit_inradii (Fin 1) (points_f64 slanted_mesh) slanted_mesh
     = Inr [(Fin 0, Fin 0), (Fin 0, Fin 0), (Fin 0, Fin 0)]"
  by (simp add: step_diff_f64_def raw_diff_f64_def max_step_f64_def slanted_mesh_def
      unit_inradii_def cells_flat_def repeat3_def clamp_f64_def clamp_row_f64_def
      step_length_f64_def norm2_f64_def f64_sub_def)

text \<open>The theorem on the triangle and the line \<open>x + 3y = 0\<close>, where one pass puts the corners
  on the line without rounding, and for the surface object whose \<open>f\<close> is the constant 1.\<close>

theorem project_to_surface_f64_exit_witness:
  "keep_points slanted_mesh = Inr (points_f64 slanted_mesh, slanted_mesh) \<and>
   step_diff_f64 unit_inradii (Fin 1) (points_f64 slanted_mesh) slanted_mesh
     = Inr [(Fin 0, Fin 0), (Fin 0, Fin 0), (Fin 0, Fin 0)] \<and>
   project_to_surface_f64 slanted_line default_surface_tol (points_f64 slanted_mesh)
     = Some [(Fin 9, Fin (- 3)), (Fin (- 3), Fin 1), (Fin 0, Fin 0)] \<and>
   runner_step_f64 keep_points unit_inradii keep_cells (Fin 1) (Some slanted_line)
       default_surface_tol slanted_mesh
     = Some (Inr ([(Fin 0, Fin 0), (Fin 0, Fin 0), (Fin 0, Fin 0)],
                  slanted_mesh\<lparr>points_f64 :=
                    [(Fin 9, Fin (- 3)), (Fin (- 3), Fin 1), (Fin 0, Fin 0)]\<rparr>)) \<and>
   project_to_surface_f64 (level_surface_f64 (Fin 1)) default_surface_tol [(Fin 0, Fin 0)] = None"
proof -
  let ?pts = "[(Fin 10, Fin 0), (Fin 0, Fin 10), (Fin 0, Fin 0)]"
  let ?pts' = "[(Fin 9, Fin (- 3)), (Fin (- 3), Fin 1), (Fin 0, Fin 0)]"
  let ?z = "[(Fin 0, Fin 0), (Fin 0, Fin 0), (Fin 0, Fin 0)]"
  note th = project_to_surface_f64_exit[of slanted_line default_surface_tol ?pts ?pts'
      "[(Fin 0, Fin 0)]" default_surface_tol "level_surface_f64 (Fin 1)"
      keep_points slanted_mesh ?pts slanted_mesh unit_inradii "Fin 1" ?z keep_cells]
  have pm: "points_f64 slanted_mesh = ?pts" by (simp add: slanted_mesh_def)
  have k: "keep_points slanted_mesh = Inr (?pts, slanted_mesh)"
    by (simp add: keep_points_def pm)
  have sd: "step_diff_f64 unit_inradii (Fin 1) ?pts slanted_mesh = Inr ?z"
    using slanted_mesh_step_diff by (simp add: pm)
  have ex: "\<exists>k. ?pts' = (newton_sweep_f64 slanted_line ^^ k) ?pts \<and>
           \<not> off_surface_f64 slanted_line default_surface_tol ?pts' \<and>
           (\<forall>j<k. off_surface_f64 slanted_line default_surface_tol
                     ((newton_sweep_f64 slanted_line ^^ j) ?pts))"
  proof (intro exI[of _ 1] conjI)
    show "?pts' = (newton_sweep_f64 slanted_line ^^ 1) ?pts" by (simp add: slanted_mesh_sweep)
    show "\<not> off_surface_f64 slanted_line default_surface_tol ?pts'"
      by (simp add: off_surface_f64_def slanted_line_def default_surface_tol_def)
    show "\<forall>j<1. off_surface_f64 slanted_line default_surface_tol
                     ((newton_sweep_f64 slanted_line ^^ j) ?pts)"
      by (simp add: off_surface_f64_def slanted_line_def default_surface_tol_def)
  qed
  have p: "project_to_surface_f64 slanted_line default_surface_tol ?pts = Some ?pts'"
    using th[THEN conjunct1] ex by blast
  have ad: "add_diff_f64 ?pts ?z = ?pts" by (simp add: add_diff_f64_def)
  have r: "runner_step_f64 keep_points unit_inradii keep_cells (Fin 1) (Some slanted_line)
       default_surface_tol slanted_mesh
     = Some (Inr (?z, slanted_mesh\<lparr>points_f64 := ?pts'\<rparr>))"
    using th[THEN conjunct2, THEN conjunct2, THEN conjunct2, THEN conjunct2, rule_format,
        OF conjI[OF k sd]]
    by (simp add: pm ad p flip_until_delaunay_f64_def keep_cells_def)
  have h: "[(Fin 0, Fin 0)] \<noteq> [] \<and>
      (\<forall>p. f64_less default_surface_tol (f64_abs (surface_f64 (level_surface_f64 (Fin 1)) p)))"
    by (simp add: level_surface_f64_def default_surface_tol_def)
  have n: "project_to_surface_f64 (level_surface_f64 (Fin 1)) default_surface_tol [(Fin 0, Fin 0)]
      = None"
    using th[THEN conjunct2, THEN conjunct2, THEN conjunct2, THEN conjunct1, rule_format, OF h] .
  from k sd p r n show ?thesis by (simp add: pm)
qed

text \<open>The roundings of the two passes on the line \<open>x + 3y = 0\<close> that follow.\<close>

lemma slant_1: "round_double (- (4053239664633447 / 4194304)) = Fin (- (4053239664633447 / 4194304))"
  by (rule round_double_eval[where e="29" and n="-8106479329266894"]) (simp_all add: pow2_def)

lemma slant_2: "round_double (- (1 / 8388608)) = Fin (- (1 / 8388608))"
  by (rule round_double_eval[where e="-23" and n="-4503599627370496"]) (simp_all add: pow2_def)

lemma slant_3: "round_double (1) = Fin (1)"
  by (rule round_double_eval[where e="0" and n="4503599627370496"]) (simp_all add: pow2_def)

lemma slant_4: "round_double (9) = Fin (9)"
  by (rule round_double_eval[where e="3" and n="5066549580791808"]) (simp_all add: pow2_def)

lemma slant_5: "round_double (10) = Fin (10)"
  by (rule round_double_eval[where e="3" and n="5629499534213120"]) (simp_all add: pow2_def)

lemma slant_6: "round_double (- (1 / 83886080)) = Fin (- (3602879701896397 / 302231454903657293676544))"
  by (rule round_double_eval[where e="-27" and n="-7205759403792794"]) (simp_all add: pow2_def)

lemma slant_7: "round_double (- (3602879701896397 / 302231454903657293676544)) = Fin (- (3602879701896397 / 302231454903657293676544))"
  by (rule round_double_eval[where e="-27" and n="-7205759403792794"]) (simp_all add: pow2_def)

lemma slant_8: "round_double (292066698292584064913479524207821 / 302231454903657293676544) = Fin (8106479329266893 / 8388608)"
  by (rule round_double_eval[where e="29" and n="8106479329266893"]) (simp_all add: pow2_def)

lemma slant_9: "round_double (- (10808639105689191 / 302231454903657293676544)) = Fin (- (1351079888211149 / 37778931862957161709568))"
  by (rule round_double_eval[where e="-25" and n="-5404319552844596"]) (simp_all add: pow2_def)

lemma slant_10: "round_double (- (12169445762191002704728313508659 / 37778931862957161709568)) = Fin (- (5404319552844595 / 16777216))"
  by (rule round_double_eval[where e="28" and n="-5404319552844595"]) (simp_all add: pow2_def)

lemma slant_11: "round_double (- (16212958658533785 / 16777216)) = Fin (- (2026619832316723 / 2097152))"
  by (rule round_double_eval[where e="29" and n="-8106479329266892"]) (simp_all add: pow2_def)

lemma slant_12: "round_double (1 / 8388608) = Fin (1 / 8388608)"
  by (rule round_double_eval[where e="-23" and n="4503599627370496"]) (simp_all add: pow2_def)

lemma slant_13: "round_double (1 / 83886080) = Fin (3602879701896397 / 302231454903657293676544)"
  by (rule round_double_eval[where e="-27" and n="7205759403792794"]) (simp_all add: pow2_def)

lemma slant_14: "round_double (3602879701896397 / 302231454903657293676544) = Fin (3602879701896397 / 302231454903657293676544)"
  by (rule round_double_eval[where e="-27" and n="7205759403792794"]) (simp_all add: pow2_def)

lemma slant_15: "round_double (292066698292584057707720120415027 / 302231454903657293676544) = Fin (8106479329266893 / 8388608)"
  by (rule round_double_eval[where e="29" and n="8106479329266893"]) (simp_all add: pow2_def)

lemma slant_16: "round_double (10808639105689191 / 302231454903657293676544) = Fin (1351079888211149 / 37778931862957161709568)"
  by (rule round_double_eval[where e="-25" and n="5404319552844596"]) (simp_all add: pow2_def)

lemma slant_17: "round_double (- (12169445762191003155088276245709 / 37778931862957161709568)) = Fin (- (1351079888211149 / 4194304))"
  by (rule round_double_eval[where e="28" and n="-5404319552844596"]) (simp_all add: pow2_def)

lemma slant_18: "round_double (8106479329266893 / 8388608) = Fin (8106479329266893 / 8388608)"
  by (rule round_double_eval[where e="29" and n="8106479329266893"]) (simp_all add: pow2_def)

lemma slant_19: "round_double (- (1351079888211149 / 4194304)) = Fin (- (1351079888211149 / 4194304))"
  by (rule round_double_eval[where e="28" and n="-5404319552844596"]) (simp_all add: pow2_def)

lemma slant_20: "round_double (- (5404319552844595 / 16777216)) = Fin (- (5404319552844595 / 16777216))"
  by (rule round_double_eval[where e="28" and n="-5404319552844595"]) (simp_all add: pow2_def)

lemma slant_21: "round_double (7737125245533627 / 77371252455336267181195264) = Fin (7737125245533627 / 77371252455336267181195264)"
  by (rule round_double_eval[where e="-34" and n="7737125245533627"]) (simp_all add: pow2_def)

lemmas slant = slant_1 slant_2 slant_3 slant_4 slant_5 slant_6 slant_7 slant_8 slant_9 slant_10 slant_11 slant_12 slant_13 slant_14 slant_15 slant_16 slant_17 slant_18 slant_19 slant_20 slant_21

lemma slant_f_first: "surface_f64 slanted_line (Fin (8106479329266893 / 8388608), Fin (- (1351079888211149 / 4194304))) = Fin (- (1 / 8388608))"
  by (simp add: slanted_line_def slant)

lemma slant_f_second: "surface_f64 slanted_line (Fin (8106479329266893 / 8388608), Fin (- (5404319552844595 / 16777216))) = Fin (1 / 8388608)"
  by (simp add: slanted_line_def slant)

lemma slant_first_second: "newton_point_f64 slanted_line (Fin (8106479329266893 / 8388608), Fin (- (1351079888211149 / 4194304))) = (Fin (8106479329266893 / 8388608), Fin (- (5404319552844595 / 16777216)))"
  by (simp add: newton_point_f64_def norm2_f64_def f64_sub_def Let_def slant_f_first slant)
     (simp add: slanted_line_def slant)

lemma slant_second_first: "newton_point_f64 slanted_line (Fin (8106479329266893 / 8388608), Fin (- (5404319552844595 / 16777216))) = (Fin (8106479329266893 / 8388608), Fin (- (1351079888211149 / 4194304)))"
  by (simp add: newton_point_f64_def norm2_f64_def f64_sub_def Let_def slant_f_second slant)
     (simp add: slanted_line_def slant)

lemma slanted_cycle_never_ends:
  assumes "project_to_surface_f64 s tol pts = Some pts'"
  shows "\<not> (s = slanted_line \<and> tol = default_surface_tol \<and>
            (pts = [(Fin (8106479329266893 / 8388608), Fin (- (1351079888211149 / 4194304)))] \<or>
             pts = [(Fin (8106479329266893 / 8388608), Fin (- (5404319552844595 / 16777216)))]))"
  using assms
proof (induct rule: project_to_surface_f64.raw_induct[rotated 1, consumes 1])
  case (1 project_to_surface s tol pts pts')
  show ?case
  proof
    assume a: "s = slanted_line \<and> tol = default_surface_tol \<and>
            (pts = [(Fin (8106479329266893 / 8388608), Fin (- (1351079888211149 / 4194304)))] \<or>
             pts = [(Fin (8106479329266893 / 8388608), Fin (- (5404319552844595 / 16777216)))])"
    then have off: "off_surface_f64 s tol pts"
      by (auto simp: off_surface_f64_def default_surface_tol_def slant_f_first slant_f_second)
    have nx: "newton_sweep_f64 s pts
          = [(Fin (8106479329266893 / 8388608), Fin (- (1351079888211149 / 4194304)))] \<or>
        newton_sweep_f64 s pts
          = [(Fin (8106479329266893 / 8388608), Fin (- (5404319552844595 / 16777216)))]"
      using a by (auto simp: newton_sweep_f64_def slant_first_second slant_second_first)
    have "project_to_surface s tol (newton_sweep_f64 s pts) = Some pts'"
      using 1(2) off by simp
    from 1(1)[OF this] a nx show False by simp
  qed
qed

lemma unit_circle_centre:
  "newton_point_f64 unit_circle (Fin 0, Fin 0) = (NaN, NaN)"
  "surface_f64 unit_circle (Fin 0, Fin 0) = Fin (- 1)"
  "surface_f64 unit_circle (NaN, NaN) = NaN"
  by (simp_all add: newton_point_f64_def unit_circle_def norm2_f64_def f64_sub_def Let_def
      signed_inf_def)

text \<open>
  Claim C9 says that the loop is left only when \<open>\<bar>f(x)\<bar> \<le> implicit_surface_tol\<close> holds for
  every point, and that for an affine \<open>f\<close> with a gradient that is not zero it is left after
  one pass. On the unit circle a point at the centre has the gradient zero: the pass makes
  it \<^verbatim>\<open>nan\<close>, \<open>f\<close> is \<^verbatim>\<open>nan\<close> there, and the loop is left. On the line \<open>x + 3y = 0\<close>, with the
  gradient \<open>(1, 3)\<close> and the default tolerance, the pass takes the point below to its
  neighbour and that one back, \<open>f\<close> is \<open>-2\<^sup>-\<^sup>2\<^sup>3\<close> and \<open>2\<^sup>-\<^sup>2\<^sup>3\<close> at the two, and the loop never
  ends.
\<close>

theorem project_to_surface_f64_leaves_surface:
  "project_to_surface_f64 unit_circle default_surface_tol [(Fin 0, Fin 0)] = Some [(NaN, NaN)] \<and>
   surface_f64 unit_circle (NaN, NaN) = NaN \<and>
   surface_grad_f64 slanted_line
     (Fin (8106479329266893 / 8388608), Fin (- (1351079888211149 / 4194304))) = (Fin 1, Fin 3) \<and>
   project_to_surface_f64 slanted_line default_surface_tol
     [(Fin (8106479329266893 / 8388608), Fin (- (1351079888211149 / 4194304)))] = None"
proof -
  have a: "\<not> off_surface_f64 unit_circle default_surface_tol
            ((newton_sweep_f64 unit_circle ^^ 1) [(Fin 0, Fin 0)])"
    by (simp add: off_surface_f64_def newton_sweep_f64_def unit_circle_centre
        default_surface_tol_def)
  have b: "\<forall>j<1. off_surface_f64 unit_circle default_surface_tol
            ((newton_sweep_f64 unit_circle ^^ j) [(Fin 0, Fin 0)])"
    by (simp add: off_surface_f64_def unit_circle_centre default_surface_tol_def)
  have 1: "project_to_surface_f64 unit_circle default_surface_tol [(Fin 0, Fin 0)]
      = Some [(NaN, NaN)]"
    using project_to_surface_f64_first[OF a b]
    by (simp add: newton_sweep_f64_def unit_circle_centre)
  have 2: "project_to_surface_f64 slanted_line default_surface_tol
     [(Fin (8106479329266893 / 8388608), Fin (- (1351079888211149 / 4194304)))] = None"
  proof (cases "project_to_surface_f64 slanted_line default_surface_tol
     [(Fin (8106479329266893 / 8388608), Fin (- (1351079888211149 / 4194304)))]")
    case (Some y)
    from slanted_cycle_never_ends[OF this] show ?thesis by simp
  qed simp
  have 3: "surface_grad_f64 slanted_line
     (Fin (8106479329266893 / 8388608), Fin (- (1351079888211149 / 4194304))) = (Fin 1, Fin 3)"
    by (simp add: slanted_line_def)
  from 1 unit_circle_centre(3) 3 2 show ?thesis by (intro conjI)
qed

section \<open>The loop of the runner in exact arithmetic\<close>

lemma runner_loop_returns:
  assumes "runner_loop g fl tol mx om s st k m = Some y"
  shows "\<forall>K v m'. y = Inr (K, v, m') \<longrightarrow>
           (\<exists>n d. K = k + n + 1 \<and>
              nth_iteration g fl om s st n m = Some (Inr (d, m')) \<and>
              is_final tol mx (k + n + 1) d \<and>
              (\<forall>j<n. \<exists>d' m''. nth_iteration g fl om s st j m = Some (Inr (d', m'')) \<and>
                  \<not> is_final tol mx (k + j + 1) d') \<and>
              np_max (map (\<lambda>x. sqrt (norm2 x)) d) = Inr v)"
  using assms
proof (induct rule: runner_loop.raw_induct[rotated 1, consumes 1])
  case (1 runner_loop g fl tol mx om s st k m y)
  show ?case
  proof (intro allI impI)
    fix K v m' assume y: "y = Inr (K, v, m')"
    from 1(2) y obtain r where r: "runner_step g fl om s st m = Some r"
      by (auto split: option.splits)
    have nl: "\<not> isl r" using 1(2) y r by (auto split: if_splits)
    then obtain d0 m1 where r': "r = Inr (d0, m1)" by (cases r) auto
    show "\<exists>n d. K = k + n + 1 \<and>
              nth_iteration g fl om s st n m = Some (Inr (d, m')) \<and>
              is_final tol mx (k + n + 1) d \<and>
              (\<forall>j<n. \<exists>d' m''. nth_iteration g fl om s st j m = Some (Inr (d', m'')) \<and>
                  \<not> is_final tol mx (k + j + 1) d') \<and>
              np_max (map (\<lambda>x. sqrt (norm2 x)) d) = Inr v"
    proof (cases "is_final tol mx (k + 1) d0")
      case True
      then have "runner_result (k + 1) d0 m1 = Inr (K, v, m')"
        using 1(2) y r r' by simp
      then have "K = k + 1" "m1 = m'" "np_max (map (\<lambda>x. sqrt (norm2 x)) d0) = Inr v"
        by (auto simp: runner_result_def split: sum.splits)
      then show ?thesis
        using True r r' by (intro exI[of _ 0] exI[of _ d0]) simp
    next
      case False
      then have "runner_loop g fl tol mx om s st (k + 1) m1 = Some y"
        using 1(2) r r' by simp
      from 1(1)[OF this] y obtain n d where n:
        "K = k + 1 + n + 1"
        "nth_iteration g fl om s st n m1 = Some (Inr (d, m'))"
        "is_final tol mx (k + 1 + n + 1) d"
        "\<forall>j<n. \<exists>d' m''. nth_iteration g fl om s st j m1 = Some (Inr (d', m'')) \<and>
                  \<not> is_final tol mx (k + 1 + j + 1) d'"
        "np_max (map (\<lambda>x. sqrt (norm2 x)) d) = Inr v"
        by blast
      have a: "nth_iteration g fl om s st (Suc n) m = Some (Inr (d, m'))"
        using n(2) r r' by simp
      have b: "\<forall>j<Suc n. \<exists>d' m''. nth_iteration g fl om s st j m = Some (Inr (d', m'')) \<and>
                  \<not> is_final tol mx (k + j + 1) d'"
      proof (intro allI impI)
        fix j assume j: "j < Suc n"
        show "\<exists>d' m''. nth_iteration g fl om s st j m = Some (Inr (d', m'')) \<and>
                  \<not> is_final tol mx (k + j + 1) d'"
        proof (cases j)
          case 0
          then show ?thesis using r r' False by simp
        next
          case (Suc j')
          then have "j' < n" using j by simp
          with n(4) show ?thesis
            using r r' Suc by (auto simp: add.commute add.left_commute)
        qed
      qed
      show ?thesis
        using n(1,3,5) a b
        by (intro exI[of _ "Suc n"] exI[of _ d]) (simp add: add.commute add.left_commute)
    qed
  qed
qed

lemma step_diff_rows:
  assumes "length new_points = length (points m)" "cells_in_range m"
  shows "\<exists>diff. step_diff omega new_points m = Inr diff \<and> length diff = length (points m) \<and>
           (\<forall>p<length (points m).
              clamp_row (step_bound m p) (raw_displacement omega new_points m p) = Inr (diff ! p))"
proof -
  obtain diff0 where diff0: "raw_diff omega new_points (points m) = Inr diff0"
    "length diff0 = length (points m)"
    "\<forall>p<length (points m). diff0 ! p = raw_displacement omega new_points m p"
    using raw_diff_nth[OF assms(1)] by blast
  obtain ms where ms: "max_step m = Inr ms" "length ms = length (points m)"
    "\<forall>p<length (points m). ms ! p = step_bound m p"
    using max_step_bound[OF assms(2)] by blast
  have nn: "\<forall>x\<in>set ms. nonneg_np x"
    using ms(2,3) nonneg_step_bound by (auto simp: in_set_conv_nth)
  obtain diff where diff: "clamp ms diff0 = Inr diff" "length diff = length diff0"
    "\<forall>p<length diff0. clamp_row (ms ! p) (diff0 ! p) = Inr (diff ! p)"
    using clamp_nth[of ms diff0] ms(2) diff0(2) nn by auto
  have "step_diff omega new_points m = Inr diff"
    by (simp add: step_diff_def diff0(1) ms(1) diff(1))
  moreover have "\<forall>p<length (points m).
      clamp_row (step_bound m p) (raw_displacement omega new_points m p) = Inr (diff ! p)"
    using diff(3) diff0(2,3) ms(3) by simp
  ultimately show ?thesis using diff(2) diff0(2) by auto
qed

lemma clamp_row_zero: "nonneg_np b \<Longrightarrow> clamp_row b (0, 0) = Inr (0, 0)"
  by (cases b) (simp_all add: clamp_row_def nonneg_np_def step_length_def norm2_def)

section \<open>When the runner stops\<close>

















section \<open>The boundary points stay where they are\<close>

lemma inplace2_length: "inplace2 f xs ys = Inr zs \<Longrightarrow> length zs = length xs"
  by (auto simp: inplace2_def split: if_splits)

lemma add_column_length: "add_column n srp i acc = Inr r \<Longrightarrow> length r = length acc"
  by (auto simp: add_column_def split: sum.splits dest: inplace2_length)

lemma for_each_length:
  assumes "\<And>x s s'. body x s = Inr s' \<Longrightarrow> length s' = length s"
  shows "for_each body xs s = Inr s' \<Longrightarrow> length s' = length s"
proof (induction xs arbitrary: s)
  case Nil then show ?case by simp
next
  case (Cons x xs)
  then show ?case using assms by (fastforce split: sum.splits)
qed

lemma get_new_points_averaged_length:
  assumes "get_new_points_averaged m r w = Inr X"
  shows "length X = length (points m)"
proof -
  from assms obtain srp np om where
    np: "for_each (add_column (length (points m)) srp) (cells_T (cells m))
          (replicate (length (points m)) (0, 0)) = Inr np"
    and X: "inplace2 (\<lambda>(x, y) w. (np_true_divide x w, np_true_divide y w)) np om = Inr X"
    by (auto simp: get_new_points_averaged_def Let_def split: sum.splits)
  have "length np = length (replicate (length (points m)) (0::real, 0::real))"
    using np by (rule for_each_length[rotated]) (rule add_column_length)
  then show ?thesis using inplace2_length[OF X] by simp
qed

lemma finite_rows_nth:
  assumes "finite_rows Y = Inr X"
  shows "length X = length Y"
    and "\<And>p. p < length Y \<Longrightarrow> Y ! p = fin_point q \<Longrightarrow> X ! p = q"
  using assms
  by (auto simp: finite_rows_def fin_point_def the_real_def split: if_splits)

lemma reset_boundary_none:
  assumes "reset_boundary None m Y = Inr X" "length Y = length (points m)"
  shows "length X = length (points m)"
    and "\<And>p. p < length (points m) \<Longrightarrow> is_boundary_point m p \<Longrightarrow> X ! p = points m ! p"
proof -
  let ?Z = "overwrite_masked (is_boundary_point m) (map fin_point (points m)) Y"
  have fr: "finite_rows ?Z = Inr X" using assms(1) by (simp add: reset_boundary_def)
  have lz: "length ?Z = length (points m)" using assms(2) by (simp add: overwrite_masked_def)
  show "length X = length (points m)" using finite_rows_nth(1)[OF fr] lz by simp
  fix p assume p: "p < length (points m)" "is_boundary_point m p"
  then have "?Z ! p = fin_point (points m ! p)"
    using assms(2) by (simp add: overwrite_masked_def)
  then show "X ! p = points m ! p"
    using finite_rows_nth(2)[OF fr, of p] lz p(1) by simp
qed

lemma cell_circumcenters_frame:
  assumes "cell_circumcenters m = Inr (cc, m1)"
  shows "points m1 = points m" "cells m1 = cells m"
  using assms
  by (auto simp: cell_circumcenters_def split: option.splits sum.splits)

lemma is_boundary_point_cells:
  "cells m1 = cells m \<Longrightarrow> is_boundary_point m1 = is_boundary_point m"
  by (simp add: is_boundary_point_def fun_eq_iff)

lemma cells_in_range_cong:
  "cells m1 = cells m \<Longrightarrow> length (points m1) = length (points m) \<Longrightarrow>
   cells_in_range m1 = cells_in_range m"
  by (simp add: cells_in_range_def)

lemma uniform_rule_boundary:
  assumes "uniform_get_new_points None m = Inr (X, m1)"
  shows "points m1 = points m" "cells m1 = cells m" "length X = length (points m)"
    and "\<And>p. p < length (points m) \<Longrightarrow> is_boundary_point m p \<Longrightarrow> X ! p = points m ! p"
proof -
  from assms obtain cc m0 Y where
    cc: "cell_circumcenters m = Inr (cc, m0)"
    and m1: "m1 = m0\<lparr>circumcenters_cache :=
               Some (overwrite_rows (boundary_cell_ids m0) (cell_barycenters m0) cc)\<rparr>"
    and Y: "get_new_points_averaged m1
              (overwrite_rows (boundary_cell_ids m0) (cell_barycenters m0) cc)
              (Some (cell_volumes m1)) = Inr Y"
    and X: "reset_boundary None m1 Y = Inr X"
    by (auto simp: uniform_get_new_points_def uniform_reference_def Let_def
        split: sum.splits prod.splits)
  show fr: "points m1 = points m" "cells m1 = cells m"
    using cell_circumcenters_frame[OF cc] by (simp_all add: m1)
  have lY: "length Y = length (points m1)" by (rule get_new_points_averaged_length[OF Y])
  show "length X = length (points m)" using reset_boundary_none(1)[OF X lY] fr by simp
  fix p assume "p < length (points m)" "is_boundary_point m p"
  then show "X ! p = points m ! p"
    using reset_boundary_none(2)[OF X lY, of p] fr is_boundary_point_cells[OF fr(2)] by simp
qed

lemma density_preserving_rule_boundary:
  assumes "density_preserving_get_new_points None m = Inr (X, m1)"
  shows "points m1 = points m" "cells m1 = cells m" "length X = length (points m)"
    and "\<And>p. p < length (points m) \<Longrightarrow> is_boundary_point m p \<Longrightarrow> X ! p = points m ! p"
proof -
  from assms obtain cc Y where
    cc: "cell_circumcenters m = Inr (cc, m1)"
    and Y: "get_new_points_averaged m1
              (overwrite_masked (is_boundary_cell m1) (cell_barycenters m1) cc) None = Inr Y"
    and X: "reset_boundary None m1 Y = Inr X"
    by (auto simp: density_preserving_get_new_points_def density_preserving_reference_def
        split: sum.splits prod.splits)
  show fr: "points m1 = points m" "cells m1 = cells m"
    using cell_circumcenters_frame[OF cc] by simp_all
  have lY: "length Y = length (points m1)" by (rule get_new_points_averaged_length[OF Y])
  show "length X = length (points m)" using reset_boundary_none(1)[OF X lY] fr by simp
  fix p assume "p < length (points m)" "is_boundary_point m p"
  then show "X ! p = points m ! p"
    using reset_boundary_none(2)[OF X lY, of p] fr is_boundary_point_cells[OF fr(2)] by simp
qed

lemma odt_rules_boundary_rule:
  "boundary_rule (uniform_get_new_points None)"
  "boundary_rule (density_preserving_get_new_points None)"
proof -
  show "boundary_rule (uniform_get_new_points None)"
    unfolding boundary_rule_def
  proof (intro allI impI)
    fix m X m1 assume a: "uniform_get_new_points None m = Inr (X, m1)"
    show "points m1 = points m \<and> cells m1 = cells m \<and> length X = length (points m) \<and>
        (\<forall>p<length (points m). is_boundary_point m p \<longrightarrow> X ! p = points m ! p)"
      using uniform_rule_boundary[OF a] by simp
  qed
  show "boundary_rule (density_preserving_get_new_points None)"
    unfolding boundary_rule_def
  proof (intro allI impI)
    fix m X m1 assume a: "density_preserving_get_new_points None m = Inr (X, m1)"
    show "points m1 = points m \<and> cells m1 = cells m \<and> length X = length (points m) \<and>
        (\<forall>p<length (points m). is_boundary_point m p \<longrightarrow> X ! p = points m ! p)"
      using density_preserving_rule_boundary[OF a] by simp
  qed
qed

lemma add_diff_nth:
  "length diff = length pts \<Longrightarrow> p < length pts \<Longrightarrow>
   add_diff pts diff ! p = (fst (pts ! p) + fst (diff ! p), snd (pts ! p) + snd (diff ! p))"
  by (simp add: add_diff_def case_prod_unfold)

lemma length_add_diff: "length diff = length pts \<Longrightarrow> length (add_diff pts diff) = length pts"
  by (simp add: add_diff_def)

lemma boundary_step:
  assumes g: "boundary_rule g"
    and fl: "boundary_preserving_flip fl"
    and cr: "cells_in_range m"
    and st: "runner_step g fl om None st m = Some (Inr (d, m'))"
  shows "cells_in_range m'" "length (points m') = length (points m)"
    "is_boundary_point m' = is_boundary_point m"
    "\<And>p. p < length (points m) \<Longrightarrow> is_boundary_point m p \<Longrightarrow>
       d ! p = (0, 0) \<and> points m' ! p = points m ! p"
proof -
  from st obtain X m1 where
    gm: "g m = Inr (X, m1)" and sd: "step_diff om X m1 = Inr d"
    and m': "m' = flip_until_delaunay fl (update_values (m1\<lparr>points := add_diff (points m1) d\<rparr>))"
    by (auto simp: runner_step_def split: sum.splits prod.splits)
  from g gm have fr: "points m1 = points m" "cells m1 = cells m" "length X = length (points m)"
    and bX: "\<And>p. p < length (points m) \<Longrightarrow> is_boundary_point m p \<Longrightarrow> X ! p = points m ! p"
    unfolding boundary_rule_def by blast+
  have cr1: "cells_in_range m1"
    using cr fr by (simp add: cells_in_range_def)
  obtain diff where diff: "step_diff om X m1 = Inr diff" "length diff = length (points m1)"
    "\<forall>p<length (points m1).
        clamp_row (step_bound m1 p) (raw_displacement om X m1 p) = Inr (diff ! p)"
    using step_diff_rows[of X m1 om] fr cr1 by auto
  have dd: "diff = d" using sd diff(1) by simp
  let ?m2 = "update_values (m1\<lparr>points := add_diff (points m1) d\<rparr>)"
  have l2: "length (points ?m2) = length (points m)"
    using diff(2) dd fr by (simp add: update_values_def length_add_diff)
  have c2: "cells ?m2 = cells m" using fr by (simp add: update_values_def)
  have cr2: "cells_in_range ?m2"
    using cr l2 c2 by (simp add: cells_in_range_def)
  show "cells_in_range m'"
    using fl cr2 unfolding m' boundary_preserving_flip_def by blast
  show "length (points m') = length (points m)"
    using l2 by (simp add: m' flip_until_delaunay_def)
  have "is_boundary_point m' = is_boundary_point ?m2"
    using fl unfolding m' boundary_preserving_flip_def by (simp add: fun_eq_iff)
  also have "\<dots> = is_boundary_point m"
    using c2 by (simp add: is_boundary_point_def fun_eq_iff)
  finally show "is_boundary_point m' = is_boundary_point m" .
  fix p assume p: "p < length (points m)" "is_boundary_point m p"
  have rz: "raw_displacement om X m1 p = (0, 0)"
    using bX[OF p] fr by (simp add: raw_displacement_def)
  have "p < length (points m1)" using p(1) fr by simp
  with diff(3) have "clamp_row (step_bound m1 p) (raw_displacement om X m1 p) = Inr (diff ! p)"
    by blast
  then have "clamp_row (step_bound m1 p) (0, 0) = Inr (d ! p)"
    unfolding rz dd .
  then have dz: "d ! p = (0, 0)"
    by (simp add: clamp_row_zero[OF nonneg_step_bound])
  have "points m' ! p = add_diff (points m1) d ! p"
    by (simp add: m' flip_until_delaunay_def update_values_def)
  also have "\<dots> = points m ! p"
    using add_diff_nth[of d "points m1" p] diff(2) dd fr p(1) dz by simp
  finally show "d ! p = (0, 0) \<and> points m' ! p = points m ! p" using dz by simp
qed

lemma boundary_iterations:
  assumes g: "boundary_rule g"
    and fl: "boundary_preserving_flip fl"
  shows "cells_in_range m \<Longrightarrow> nth_iteration g fl om None st n m = Some (Inr (d, m')) \<Longrightarrow>
         p < length (points m) \<Longrightarrow> is_boundary_point m p \<Longrightarrow>
         d ! p = (0, 0) \<and> points m' ! p = points m ! p"
proof (induction n arbitrary: m)
  case 0
  then show ?case using boundary_step(4)[OF g fl, of m om st d m' p] by simp
next
  case (Suc n)
  from Suc.prems(2) obtain d0 m1 where
    s0: "runner_step g fl om None st m = Some (Inr (d0, m1))"
    and it: "nth_iteration g fl om None st n m1 = Some (Inr (d, m'))"
    by (auto split: option.splits sum.splits prod.splits)
  note b = boundary_step[OF g fl Suc.prems(1) s0]
  have "d ! p = (0, 0) \<and> points m' ! p = points m1 ! p"
    using Suc.IH[OF b(1) it] Suc.prems(3,4) b(2,3) by simp
  moreover have "points m1 ! p = points m ! p"
    using b(4)[OF Suc.prems(3,4)] by simp
  ultimately show ?case by simp
qed

lemma boundary_runner:
  assumes g: "boundary_rule g"
    and fl: "boundary_preserving_flip fl"
    and cr: "cells_in_range m"
    and run: "runner g fl m tol mx om None st = Some (Inr (K, v, m'))"
    and p: "p < length (points m)" "is_boundary_point m p"
  shows "points m' ! p = points m ! p"
proof -
  let ?m0 = "flip_until_delaunay fl m"
  have "runner_loop g fl tol mx om None st 0 ?m0 = Some (Inr (K, v, m'))"
    using run by (simp add: runner_def)
  from runner_loop_returns[OF this] obtain n d where
    it: "nth_iteration g fl om None st n ?m0 = Some (Inr (d, m'))" by blast
  have cr0: "cells_in_range ?m0"
    using fl cr unfolding boundary_preserving_flip_def by blast
  have p0: "p < length (points ?m0)" "is_boundary_point ?m0 p"
    using p fl unfolding boundary_preserving_flip_def
    by (simp_all add: points_flip_until_delaunay)
  from boundary_iterations[OF g fl cr0 it p0]
  show ?thesis by (simp add: points_flip_until_delaunay)
qed

lemma MeshTri_in_range:
  "cells_in_range m \<Longrightarrow>
   MeshTri (points m) (cells m) =
     Inr \<lparr>points = points m, cells = cells m, circumcenters_cache = None\<rparr>"
  by (simp add: MeshTri_def cells_in_range_def)

text \<open>
  Claim C3. For either ODT fixed-point rule with \<^verbatim>\<open>boundary_step=None\<close>, run without an
  implicit surface on a mesh whose cell indices address points, with a re-triangulation that
  keeps the boundary points: for every boundary point \<open>p\<close> the rule returns the current
  position; in every iteration that returns, the displacement of \<open>p\<close> is exactly zero and
  the position of \<open>p\<close> after it (after any number of iterations) is the one before the
  first; so is its position in the mesh the runner returns and in the points the two
  drivers return.
\<close>

theorem odt_boundary_fixed:
  assumes "rule = uniform_get_new_points None \<or> rule = density_preserving_get_new_points None"
    and "boundary_preserving_flip fl"
    and "cells_in_range m"
    and "p < length (points m)"
    and "is_boundary_point m p"
  shows "(\<forall>X m1. rule m = Inr (X, m1) \<longrightarrow> X ! p = points m ! p) \<and>
         (\<forall>n d m'. nth_iteration rule fl om None st n m = Some (Inr (d, m')) \<longrightarrow>
             d ! p = (0, 0) \<and> points m' ! p = points m ! p) \<and>
         (\<forall>K v m'. runner rule fl m tol mx om None st = Some (Inr (K, v, m')) \<longrightarrow>
             points m' ! p = points m ! p) \<and>
         (\<forall>pts' cs'. fixed_point_uniform fl (points m) (cells m) tol mx om None None st
                        = Some (Inr (pts', cs')) \<longrightarrow> pts' ! p = points m ! p) \<and>
         (\<forall>pts' cs'. fixed_point_density_preserving fl (points m) (cells m) tol mx om None None st
                        = Some (Inr (pts', cs')) \<longrightarrow> pts' ! p = points m ! p)"
proof -
  have g: "boundary_rule rule"
    using assms(1) odt_rules_boundary_rule by auto
  let ?m0 = "\<lparr>points = points m, cells = cells m, circumcenters_cache = None\<rparr>"
  have cr0: "cells_in_range ?m0" using assms(3) by (simp add: cells_in_range_def)
  have p0: "p < length (points ?m0)" "is_boundary_point ?m0 p"
    using assms(4,5) by (simp_all add: is_boundary_point_def)
  have a: "\<forall>X m1. rule m = Inr (X, m1) \<longrightarrow> X ! p = points m ! p"
    using g assms(4,5) unfolding boundary_rule_def by blast
  have b: "\<forall>n d m'. nth_iteration rule fl om None st n m = Some (Inr (d, m')) \<longrightarrow>
             d ! p = (0, 0) \<and> points m' ! p = points m ! p"
    using boundary_iterations[OF g assms(2,3) _ assms(4,5)] by blast
  have c: "\<forall>K v m'. runner rule fl m tol mx om None st = Some (Inr (K, v, m')) \<longrightarrow>
             points m' ! p = points m ! p"
    using boundary_runner[OF g assms(2,3) _ assms(4,5)] by blast
  have d: "\<forall>pts' cs'. fixed_point_uniform fl (points m) (cells m) tol mx om None None st
                        = Some (Inr (pts', cs')) \<longrightarrow> pts' ! p = points m ! p"
  proof (intro allI impI)
    fix pts' cs'
    assume "fixed_point_uniform fl (points m) (cells m) tol mx om None None st
              = Some (Inr (pts', cs'))"
    then obtain K v m' where
      "runner (uniform_get_new_points None) fl ?m0 tol mx om None st = Some (Inr (K, v, m'))"
      "pts' = points m'"
      by (auto simp: fixed_point_uniform_def MeshTri_in_range[OF assms(3)]
          split: option.splits sum.splits)
    then show "pts' ! p = points m ! p"
      using boundary_runner[OF odt_rules_boundary_rule(1) assms(2) cr0 _ p0] by simp
  qed
  have e: "\<forall>pts' cs'. fixed_point_density_preserving fl (points m) (cells m) tol mx om None None st
                        = Some (Inr (pts', cs')) \<longrightarrow> pts' ! p = points m ! p"
  proof (intro allI impI)
    fix pts' cs'
    assume "fixed_point_density_preserving fl (points m) (cells m) tol mx om None None st
              = Some (Inr (pts', cs'))"
    then obtain K v m' where
      "runner (density_preserving_get_new_points None) fl ?m0 tol mx om None st
         = Some (Inr (K, v, m'))"
      "pts' = points m'"
      by (auto simp: fixed_point_density_preserving_def MeshTri_in_range[OF assms(3)]
          split: option.splits sum.splits)
    then show "pts' ! p = points m ! p"
      using boundary_runner[OF odt_rules_boundary_rule(2) assms(2) cr0 _ p0] by simp
  qed
  from a b c d e show ?thesis by (intro conjI)
qed

lemma identity_flip_preserving: "boundary_preserving_flip (\<lambda>pts cs. cs)"
  by (simp add: boundary_preserving_flip_def flip_until_delaunay_def is_boundary_point_def
      cells_in_range_def)

lemma cross_moved_in_range: "cells_in_range cross_moved"
  by (simp add: cells_in_range_def cross_moved_def cross_mesh_def)

lemma cross_moved_boundary: "is_boundary_point cross_moved p = (p \<in> {0, 1, 2, 3})"
  using cross_is_boundary_point[of p]
  by (simp add: is_boundary_point_def cross_moved_def)

lemma cross_moved_boundary_cell_ids: "boundary_cell_ids cross_moved = [0, 1, 2, 3]"
  by (simp add: boundary_cell_ids_def cross_moved_def cross_mesh_def all_edges_def
      cell_edges_def edge_def is_boundary_edge_def upt_conv_Cons)

lemma cross_moved_barycenters:
  "cell_barycenters cross_moved = [(1/2, 1/12), (5/6, 5/12), (1/2, 3/4), (1/6, 5/12)]"
  by (simp add: cell_barycenters_def cross_moved_def cross_mesh_def cell_triangle_def
      barycenter_def)

lemma cross_moved_volumes: "cell_volumes cross_moved = [1/8, 1/4, 3/8, 1/4]"
  by (simp add: cell_volumes_def cross_moved_def cross_mesh_def cell_triangle_def
      volume_def signed_area_def)

lemma cross_moved_cache_frame:
  "boundary_cell_ids (cross_moved\<lparr>circumcenters_cache := c\<rparr>) = boundary_cell_ids cross_moved"
  "cell_barycenters (cross_moved\<lparr>circumcenters_cache := c\<rparr>) = cell_barycenters cross_moved"
  "cell_volumes (cross_moved\<lparr>circumcenters_cache := c\<rparr>) = cell_volumes cross_moved"
  "is_boundary_point (cross_moved\<lparr>circumcenters_cache := c\<rparr>) = is_boundary_point cross_moved"
  by (simp_all add: boundary_cell_ids_def cell_barycenters_def cell_volumes_def
      is_boundary_point_def fun_eq_iff)

lemma cross_moved_uniform_reference:
  "uniform_reference cross_moved =
     Inr ([(1/2, 1/12), (5/6, 5/12), (1/2, 3/4), (1/6, 5/12)],
          cross_moved\<lparr>circumcenters_cache :=
            Some [(1/2, 1/12), (5/6, 5/12), (1/2, 3/4), (1/6, 5/12)]\<rparr>)"
proof -
  have c: "circumcenters_cache cross_moved = None"
    by (simp add: cross_moved_def cross_mesh_def)
  show ?thesis
    by (simp add: uniform_reference_def cell_circumcenters_def c cross_moved_circumcenters
        cross_moved_cache_frame cross_moved_boundary_cell_ids cross_moved_barycenters
        overwrite_rows_def Let_def)
qed

lemma cross_moved_averaged:
  "get_new_points_averaged
     (cross_moved\<lparr>circumcenters_cache :=
            Some [(1/2, 1/12), (5/6, 5/12), (1/2, 3/4), (1/6, 5/12)]\<rparr>)
     [(1/2, 1/12), (5/6, 5/12), (1/2, 3/4), (1/6, 5/12)] (Some [1/8, 1/4, 3/8, 1/4]) =
   Inr [(Fin (5/18), Fin (11/36)), (Fin (13/18), Fin (11/36)), (Fin (19/30), Fin (37/60)),
        (Fin (11/30), Fin (37/60)), (Fin (1/2), Fin (1/2))]"
  by (simp add: get_new_points_averaged_def scaled_rp_def broadcast2_def cells_T_def
      cross_moved_def cross_mesh_def add_column_def bincount_def bincount_len_def inplace2_def
      omega_sum_def np_true_divide_def)

lemma cross_moved_uniform_rule:
  "uniform_get_new_points None cross_moved =
     Inr ([(0, 0), (1, 0), (1, 1), (0, 1), (1/2, 1/2)],
          cross_moved\<lparr>circumcenters_cache :=
            Some [(1/2, 1/12), (5/6, 5/12), (1/2, 3/4), (1/6, 5/12)]\<rparr>)"
proof -
  have pts: "points (cross_moved\<lparr>circumcenters_cache :=
            Some [(1/2, 1/12), (5/6, 5/12), (1/2, 3/4), (1/6, 5/12)]\<rparr>)
      = [(0, 0), (1, 0), (1, 1), (0, 1), (1/2, 1/4)]"
    by (simp add: cross_moved_def cross_mesh_def)
  show ?thesis
    by (simp add: uniform_get_new_points_def cross_moved_uniform_reference
        cross_moved_cache_frame cross_moved_volumes cross_moved_averaged
        reset_boundary_def overwrite_masked_def cross_moved_boundary pts fin_point_def
        finite_rows_def is_finite_def the_real_def upt_conv_Cons)
qed

text \<open>The theorem for the uniform rule on the square with the moved middle point: the rule
  moves the middle point, an iteration returns, and corner 0 stays at \<open>(0, 0)\<close>.\<close>

theorem odt_boundary_fixed_witness:
  "boundary_preserving_flip (\<lambda>pts cs. cs) \<and> cells_in_range cross_moved \<and>
   (0::nat) < length (points cross_moved) \<and> is_boundary_point cross_moved 0 \<and>
   uniform_get_new_points None cross_moved =
     Inr ([(0, 0), (1, 0), (1, 1), (0, 1), (1/2, 1/2)],
          cross_moved\<lparr>circumcenters_cache :=
            Some [(1/2, 1/12), (5/6, 5/12), (1/2, 3/4), (1/6, 5/12)]\<rparr>) \<and>
   (\<exists>d m'. nth_iteration (uniform_get_new_points None) (\<lambda>pts cs. cs) 1 None 0 0 cross_moved
              = Some (Inr (d, m')) \<and>
           d ! 0 = (0, 0) \<and> points m' ! 0 = (0, 0))"
proof -
  let ?m1 = "cross_moved\<lparr>circumcenters_cache :=
            Some [(1/2, 1/12), (5/6, 5/12), (1/2, 3/4), (1/6, 5/12)]\<rparr>"
  have h3: "(0::nat) < length (points cross_moved)"
    by (simp add: cross_moved_def cross_mesh_def)
  have h4: "is_boundary_point cross_moved 0"
    by (simp add: cross_moved_boundary)
  have cr1: "cells_in_range ?m1"
    using cross_moved_in_range by (simp add: cells_in_range_def)
  have len: "length [(0, 0), (1, 0), (1, 1), (0, 1), (1/2, 1/2) :: point] = length (points ?m1)"
    by (simp add: cross_moved_def cross_mesh_def)
  obtain diff where diff:
    "step_diff 1 [(0, 0), (1, 0), (1, 1), (0, 1), (1/2, 1/2)] ?m1 = Inr diff"
    using step_diff_rows[OF len cr1, of 1] by blast
  have st: "nth_iteration (uniform_get_new_points None) (\<lambda>pts cs. cs) 1 None 0 0 cross_moved
      = Some (Inr (diff, flip_until_delaunay (\<lambda>pts cs. cs)
           (update_values (?m1\<lparr>points := add_diff (points ?m1) diff\<rparr>))))"
    by (simp add: runner_step_def cross_moved_uniform_rule diff)
  have p0: "points cross_moved ! 0 = (0, 0)"
    by (simp add: cross_moved_def cross_mesh_def)
  note fixed = odt_boundary_fixed[OF disjI1[OF refl] identity_flip_preserving
      cross_moved_in_range h3 h4, of 1 0, THEN conjunct2, THEN conjunct1, rule_format, OF st]
  have ex: "\<exists>d m'. nth_iteration (uniform_get_new_points None) (\<lambda>pts cs. cs) 1 None 0 0 cross_moved
              = Some (Inr (d, m')) \<and>
           d ! 0 = (0, 0) \<and> points m' ! 0 = (0, 0)"
  proof -
    let ?m' = "flip_until_delaunay (\<lambda>pts cs. cs)
           (update_values (?m1\<lparr>points := add_diff (points ?m1) diff\<rparr>))"
    have "nth_iteration (uniform_get_new_points None) (\<lambda>pts cs. cs) 1 None 0 0 cross_moved
              = Some (Inr (diff, ?m')) \<and>
           diff ! 0 = (0, 0) \<and> points ?m' ! 0 = (0, 0)"
      using st fixed p0 by simp
    then show ?thesis by blast
  qed
  from identity_flip_preserving cross_moved_in_range h3 h4 cross_moved_uniform_rule ex
  show ?thesis by (intro conjI)
qed


section \<open>The update rules and the stored circumcenters\<close>

lemma overwrite_rows_nth_aux:
  "\<forall>k\<in>set ids. k < length dst \<Longrightarrow>
   length (overwrite_rows ids src dst) = length dst \<and>
   (\<forall>j<length dst. overwrite_rows ids src dst ! j = (if j \<in> set ids then src ! j else dst ! j))"
proof (induction ids arbitrary: dst)
  case Nil
  show ?case by (simp add: overwrite_rows_def)
next
  case (Cons k ids)
  have r: "\<forall>i\<in>set ids. i < length (dst[k := src ! k])"
    using Cons.prems by simp
  have u: "overwrite_rows (k # ids) src dst = overwrite_rows ids src (dst[k := src ! k])"
    by (simp add: overwrite_rows_def)
  show ?case using Cons.IH[OF r] Cons.prems
    by (auto simp: u nth_list_update)
qed

lemma overwrite_rows_nth:
  assumes "\<forall>k\<in>set ids. k < length dst"
  shows "length (overwrite_rows ids src dst) = length dst"
    and "\<forall>j<length dst. overwrite_rows ids src dst ! j = (if j \<in> set ids then src ! j else dst ! j)"
  using overwrite_rows_nth_aux[OF assms] by simp_all

lemma overwrite_rows_same:
  assumes "\<forall>k\<in>set ids. k < length dst"
  shows "overwrite_rows ids src dst = dst \<longleftrightarrow> (\<forall>k\<in>set ids. src ! k = dst ! k)"
proof
  assume a: "overwrite_rows ids src dst = dst"
  show "\<forall>k\<in>set ids. src ! k = dst ! k"
  proof
    fix k assume k: "k \<in> set ids"
    then have "k < length dst" using assms by simp
    with overwrite_rows_nth(2)[OF assms, of src] k
    have "overwrite_rows ids src dst ! k = src ! k" by simp
    then show "src ! k = dst ! k" using a by simp
  qed
next
  assume a: "\<forall>k\<in>set ids. src ! k = dst ! k"
  show "overwrite_rows ids src dst = dst"
    using overwrite_rows_nth[OF assms, of src] a
    by (intro nth_equalityI) auto
qed

lemma boundary_cell_ids_less: "k \<in> set (boundary_cell_ids m) \<Longrightarrow> k < length (cells m)"
  by (auto simp: boundary_cell_ids_def)

lemma cache_frame:
  "boundary_cell_ids (m\<lparr>circumcenters_cache := c\<rparr>) = boundary_cell_ids m"
  "cell_barycenters (m\<lparr>circumcenters_cache := c\<rparr>) = cell_barycenters m"
  "cell_volumes (m\<lparr>circumcenters_cache := c\<rparr>) = cell_volumes m"
  "is_boundary_point (m\<lparr>circumcenters_cache := c\<rparr>) = is_boundary_point m"
  "is_boundary_cell (m\<lparr>circumcenters_cache := c\<rparr>) = is_boundary_cell m"
  by (simp_all add: boundary_cell_ids_def cell_barycenters_def cell_volumes_def
      is_boundary_point_def is_boundary_cell_def fun_eq_iff)

text \<open>
  Claim C10, amended. Take a mesh whose circumcenters \<open>cc\<close> exist and that stores no
  circumcenter array yet, or stores \<open>cc\<close>. The rule of \<^verbatim>\<open>fixed_point_uniform\<close> takes the array of the mesh
  without a copy and writes barycenters into the rows of the cells at boundary edges: after
  its invocation the mesh stores \<open>cc\<close> with those rows replaced, whatever the boundary step
  is. The stored array equals \<open>cc\<close> exactly when every cell at a boundary edge has its
  barycenter at its circumcenter; the circumcenters of the current points are still \<open>cc\<close>,
  and \<^verbatim>\<open>update_values\<close> drops the stored array. The rule of
  \<^verbatim>\<open>fixed_point_density_preserving\<close> writes into a copy: the mesh stores \<open>cc\<close> itself.
\<close>

theorem rules_and_the_circumcenter_cache:
  assumes "compute_circumcenters m = Inr cc"
    and "circumcenters_cache m = None \<or> circumcenters_cache m = Some cc"
  shows "uniform_reference m =
           Inr (overwrite_rows (boundary_cell_ids m) (cell_barycenters m) cc,
                m\<lparr>circumcenters_cache :=
                   Some (overwrite_rows (boundary_cell_ids m) (cell_barycenters m) cc)\<rparr>) \<and>
         (\<forall>X m'. uniform_get_new_points boundary_step m = Inr (X, m') \<longrightarrow>
            m' = m\<lparr>circumcenters_cache :=
                   Some (overwrite_rows (boundary_cell_ids m) (cell_barycenters m) cc)\<rparr>) \<and>
         (overwrite_rows (boundary_cell_ids m) (cell_barycenters m) cc = cc \<longleftrightarrow>
            (\<forall>k\<in>set (boundary_cell_ids m). cell_barycenters m ! k = cc ! k)) \<and>
         compute_circumcenters
           (m\<lparr>circumcenters_cache :=
               Some (overwrite_rows (boundary_cell_ids m) (cell_barycenters m) cc)\<rparr>) = Inr cc \<and>
         circumcenters_cache
           (update_values (m\<lparr>circumcenters_cache :=
               Some (overwrite_rows (boundary_cell_ids m) (cell_barycenters m) cc)\<rparr>)) = None \<and>
         density_preserving_reference m =
           Inr (overwrite_masked (is_boundary_cell m) (cell_barycenters m) cc,
                m\<lparr>circumcenters_cache := Some cc\<rparr>) \<and>
         (\<forall>X m'. density_preserving_get_new_points boundary_step m = Inr (X, m') \<longrightarrow>
            m' = m\<lparr>circumcenters_cache := Some cc\<rparr>)"
proof -
  let ?ov = "overwrite_rows (boundary_cell_ids m) (cell_barycenters m) cc"
  have cc: "cell_circumcenters m = Inr (cc, m\<lparr>circumcenters_cache := Some cc\<rparr>)"
  proof (cases "circumcenters_cache m")
    case None
    then show ?thesis by (simp add: cell_circumcenters_def assms(1))
  next
    case (Some c)
    then have c: "circumcenters_cache m = Some cc" using assms(2) by simp
    then have "m\<lparr>circumcenters_cache := Some cc\<rparr> = m" by simp
    then show ?thesis by (simp add: cell_circumcenters_def c)
  qed
  have u: "uniform_reference m = Inr (?ov, m\<lparr>circumcenters_cache := Some ?ov\<rparr>)"
    by (simp add: uniform_reference_def cc cache_frame Let_def)
  have u': "\<forall>X m'. uniform_get_new_points boundary_step m = Inr (X, m') \<longrightarrow>
            m' = m\<lparr>circumcenters_cache := Some ?ov\<rparr>"
    by (auto simp: uniform_get_new_points_def u split: sum.splits)
  have lcc: "length cc = length (cells m)"
    by (rule compute_circumcenters_length[OF assms(1)])
  have rng: "\<forall>k\<in>set (boundary_cell_ids m). k < length cc"
    using boundary_cell_ids_less lcc by auto
  have same: "?ov = cc \<longleftrightarrow> (\<forall>k\<in>set (boundary_cell_ids m). cell_barycenters m ! k = cc ! k)"
    by (rule overwrite_rows_same[OF rng])
  have cur: "compute_circumcenters (m\<lparr>circumcenters_cache := Some ?ov\<rparr>) = Inr cc"
    by (simp add: compute_circumcenters_cache assms(1))
  have upd: "circumcenters_cache (update_values (m\<lparr>circumcenters_cache := Some ?ov\<rparr>)) = None"
    by (simp add: update_values_def)
  have d: "density_preserving_reference m =
           Inr (overwrite_masked (is_boundary_cell m) (cell_barycenters m) cc,
                m\<lparr>circumcenters_cache := Some cc\<rparr>)"
    by (simp add: density_preserving_reference_def cc cache_frame)
  have d': "\<forall>X m'. density_preserving_get_new_points boundary_step m = Inr (X, m') \<longrightarrow>
            m' = m\<lparr>circumcenters_cache := Some cc\<rparr>"
    by (auto simp: density_preserving_get_new_points_def d split: sum.splits)
  from u u' same cur upd d d' show ?thesis by (intro conjI)
qed

text \<open>The theorem on the square with the moved middle point: the uniform rule leaves the
  four barycenters in the stored array, which are not the circumcenters; the
  density-preserving reference leaves the circumcenters there.\<close>

theorem rules_and_the_circumcenter_cache_witness:
  "circumcenters_cache cross_moved = None \<and>
   compute_circumcenters cross_moved =
     Inr [(1/2, - (3/8)), (15/16, 1/2), (1/2, 19/24), (1/16, 1/2)] \<and>
   uniform_reference cross_moved =
     Inr ([(1/2, 1/12), (5/6, 5/12), (1/2, 3/4), (1/6, 5/12)],
          cross_moved\<lparr>circumcenters_cache :=
            Some [(1/2, 1/12), (5/6, 5/12), (1/2, 3/4), (1/6, 5/12)]\<rparr>) \<and>
   [(1/2, 1/12), (5/6, 5/12), (1/2, 3/4), (1/6, 5/12)]
     \<noteq> [(1/2, - (3/8)), (15/16, 1/2), (1/2, 19/24), (1/16, 1/2 :: real)] \<and>
   density_preserving_reference cross_moved =
     Inr (overwrite_masked (is_boundary_cell cross_moved) (cell_barycenters cross_moved)
            [(1/2, - (3/8)), (15/16, 1/2), (1/2, 19/24), (1/16, 1/2)],
          cross_moved\<lparr>circumcenters_cache :=
            Some [(1/2, - (3/8)), (15/16, 1/2), (1/2, 19/24), (1/16, 1/2)]\<rparr>)"
proof -
  have h1: "circumcenters_cache cross_moved = None"
    by (simp add: cross_moved_def cross_mesh_def)
  have ov: "overwrite_rows (boundary_cell_ids cross_moved) (cell_barycenters cross_moved)
              [(1/2, - (3/8)), (15/16, 1/2), (1/2, 19/24), (1/16, 1/2)]
      = [(1/2, 1/12), (5/6, 5/12), (1/2, 3/4), (1/6, 5/12)]"
    by (simp add: cross_moved_boundary_cell_ids cross_moved_barycenters overwrite_rows_def)
  show ?thesis
    using rules_and_the_circumcenter_cache[OF cross_moved_circumcenters disjI1[OF h1]]
    by (simp add: h1 cross_moved_circumcenters ov)
qed

lemma closed_boundary_cell_ids: "boundary_cell_ids closed_mesh = []"
  by (simp add: boundary_cell_ids_def closed_mesh_def all_edges_def cell_edges_def edge_def
      is_boundary_edge_def)

lemma closed_boundary_edges: "boundary_edges (cells closed_mesh) = []"
  by (simp add: closed_mesh_def boundary_edges_def all_edges_def cell_edges_def edge_def
      is_boundary_edge_def)

lemma closed_compute:
  "compute_circumcenters closed_mesh = Inr [(1/2, 1/2), (1/2, 1/2), (1/2, 1/2), (1/2, 1/2)]"
  by (simp add: compute_circumcenters_def closed_mesh_def cell_triangle_def circumcenter_def
      Let_def signed_area_def)

lemma closed_volumes: "cell_volumes closed_mesh = [1/2, 1/2, 1/2, 1/2]"
  by (simp add: cell_volumes_def closed_mesh_def cell_triangle_def volume_def signed_area_def)

lemma closed_barycenters:
  "cell_barycenters closed_mesh = [(1/3, 1/3), (2/3, 1/3), (1/3, 2/3), (2/3, 2/3)]"
  by (simp add: cell_barycenters_def closed_mesh_def cell_triangle_def barycenter_def)

lemma closed_averaged:
  "get_new_points_averaged
     (closed_mesh\<lparr>circumcenters_cache :=
            Some [(1/2, 1/2), (1/2, 1/2), (1/2, 1/2), (1/2, 1/2)]\<rparr>)
     [(1/2, 1/2), (1/2, 1/2), (1/2, 1/2), (1/2, 1/2)] (Some [1/2, 1/2, 1/2, 1/2]) =
   Inr [(Fin (1/2), Fin (1/2)), (Fin (1/2), Fin (1/2)), (Fin (1/2), Fin (1/2)),
        (Fin (1/2), Fin (1/2))]"
  by (simp add: get_new_points_averaged_def scaled_rp_def broadcast2_def cells_T_def
      closed_mesh_def add_column_def bincount_def bincount_len_def inplace2_def
      omega_sum_def np_true_divide_def)

text \<open>
  Claim C10 says that after each invocation of the uniform rule the stored circumcenters no
  longer equal the circumcenters of the current points. The rule overwrites the rows of the
  cells at boundary edges only. On the closed mesh no edge is a boundary edge, no row is
  overwritten, and the array stored after the invocation is the circumcenter array of the
  points.
\<close>

theorem uniform_rule_cache_closed_mesh:
  "circumcenters_cache closed_mesh = None \<and>
   boundary_cell_ids closed_mesh = [] \<and>
   uniform_get_new_points None closed_mesh =
     Inr ([(1/2, 1/2), (1/2, 1/2), (1/2, 1/2), (1/2, 1/2)],
          closed_mesh\<lparr>circumcenters_cache :=
            Some [(1/2, 1/2), (1/2, 1/2), (1/2, 1/2), (1/2, 1/2)]\<rparr>) \<and>
   compute_circumcenters
     (closed_mesh\<lparr>circumcenters_cache :=
        Some [(1/2, 1/2), (1/2, 1/2), (1/2, 1/2), (1/2, 1/2)]\<rparr>)
     = Inr [(1/2, 1/2), (1/2, 1/2), (1/2, 1/2), (1/2, 1/2)]"
proof -
  let ?cc = "[(1/2, 1/2), (1/2, 1/2), (1/2, 1/2), (1/2, 1/2)] :: point list"
  let ?m2 = "closed_mesh\<lparr>circumcenters_cache := Some ?cc\<rparr>"
  have c0: "circumcenters_cache closed_mesh = None"
    by (simp add: closed_mesh_def)
  have ref: "uniform_reference closed_mesh = Inr (?cc, ?m2)"
    by (simp add: uniform_reference_def cell_circumcenters_def c0 closed_compute
        cache_frame closed_boundary_cell_ids overwrite_rows_def Let_def)
  have nb: "is_boundary_point ?m2 = (\<lambda>p. False)"
    by (simp add: cache_frame is_boundary_point_def closed_boundary_edges fun_eq_iff)
  have vol: "cell_volumes ?m2 = [1/2, 1/2, 1/2, 1/2]"
    by (simp add: cache_frame closed_volumes)
  have rb: "reset_boundary None ?m2
              [(Fin (1/2), Fin (1/2)), (Fin (1/2), Fin (1/2)), (Fin (1/2), Fin (1/2)),
               (Fin (1/2), Fin (1/2))] = Inr ?cc"
    by (simp add: reset_boundary_def overwrite_masked_def nb finite_rows_def is_finite_def
        the_real_def upt_conv_Cons)
  have "uniform_get_new_points None closed_mesh = Inr (?cc, ?m2)"
    by (simp add: uniform_get_new_points_def ref vol closed_averaged rb)
  moreover have "compute_circumcenters ?m2 = Inr ?cc"
    by (simp add: compute_circumcenters_cache closed_compute)
  ultimately show ?thesis
    using c0 closed_boundary_cell_ids by simp
qed

end
